theory Spec2Isabelle
  imports Complex_Main "HOL-Library.Sublist" "HOL-Library.Multiset"
    "HOL-Library.Char_ord" "HOL-Library.List_Lexorder"
begin

section \<open>Strings and numbers of the host language\<close>

text \<open>
  JavaScript strings are modelled as \<open>string\<close> (lists of 8-bit characters). Every string
  the program produces is ASCII; a search term typed by the user is taken to be ASCII too.
  Ids and scores are natural numbers: the program only ever forms ids in \<open>1..1000000\<close>,
  where double-precision arithmetic is exact. Offsets, limits and row numbers are \<open>int\<close>,
  since the navigation code can produce negative ones.
\<close>

text \<open>\<open>String.prototype.toLowerCase\<close> on ASCII: the 26 capital letters are replaced.\<close>

definition lowerChar :: "char \<Rightarrow> char" where
  "lowerChar c =
     (case map_of (zip ''ABCDEFGHIJKLMNOPQRSTUVWXYZ'' ''abcdefghijklmnopqrstuvwxyz'') c of
        None \<Rightarrow> c
      | Some l \<Rightarrow> l)"

definition toLowerCase :: "string \<Rightarrow> string" where
  "toLowerCase s = map lowerChar s"

text \<open>\<open>String(id)\<close> for a non-negative integer: its decimal digits, most significant first.\<close>

definition digitChar :: "nat \<Rightarrow> char" where
  "digitChar d = ''0123456789'' ! d"

function String_of :: "nat \<Rightarrow> string" where
  "String_of n =
     (if n < 10 then [digitChar n] else String_of (n div 10) @ [digitChar (n mod 10)])"
  by pat_completeness auto
termination
  by (relation "measure id") auto

declare String_of.simps [simp del]

text \<open>\<open>s.padStart(targetLength, c)\<close> with a one-character pad string.\<close>

definition padStart :: "string \<Rightarrow> nat \<Rightarrow> char \<Rightarrow> string" where
  "padStart s targetLength c = replicate (targetLength - length s) c @ s"

text \<open>\<open>s.includes(t)\<close>: \<open>t\<close> occurs in \<open>s\<close> as a contiguous substring.\<close>

fun str_includes :: "string \<Rightarrow> string \<Rightarrow> bool" where
  "str_includes [] t = (t = [])"
| "str_includes (c # s) t = (prefix t (c # s) \<or> str_includes s t)"

text \<open>
  \<open>xs.slice(start, end)\<close> as ECMAScript defines it: a negative index counts from the end,
  and both indices are clamped to the length.
\<close>

definition js_slice :: "'a list \<Rightarrow> int \<Rightarrow> int \<Rightarrow> 'a list" where
  "js_slice xs start fin =
     (let len = int (length xs);
          k = (if start < 0 then max (len + start) 0 else min start len);
          final = (if fin < 0 then max (len + fin) 0 else min fin len)
      in take (nat (final - k)) (drop (nat k) xs))"

section \<open>The customer record and the deterministic generator (dataGenerator.js)\<close>

text \<open>
  The field \<open>id\<close> is called \<open>cid\<close> here. \<open>lastMessageAt\<close> holds the instant (milliseconds
  since the epoch) that the ISO-8601 string of the source denotes: \<open>toISOString\<close> and
  \<open>new Date(s).getTime()\<close> are inverse to each other on the instants the program forms.
\<close>

record customer =
  cid :: nat
  name :: string
  phone :: string
  email :: string
  score :: nat
  lastMessageAt :: int
  addedBy :: string
  avatar :: string

definition firstNames :: "string list" where
  "firstNames = [
  ''James'', ''Mary'', ''John'', ''Patricia'', ''Robert'', ''Jennifer'', ''Michael'', ''Linda'',
  ''William'', ''Barbara'', ''David'', ''Elizabeth'', ''Richard'', ''Susan'', ''Joseph'', ''Jessica'',
  ''Thomas'', ''Sarah'', ''Charles'', ''Karen'', ''Christopher'', ''Nancy'', ''Daniel'', ''Lisa'',
  ''Matthew'', ''Betty'', ''Anthony'', ''Margaret'', ''Mark'', ''Sandra'', ''Donald'', ''Ashley'',
  ''Steven'', ''Kimberly'', ''Paul'', ''Emily'', ''Andrew'', ''Donna'', ''Joshua'', ''Michelle'',
  ''Kevin'', ''Carol'', ''Brian'', ''Amanda'', ''George'', ''Melissa'', ''Edward'', ''Deborah'',
  ''Ronald'', ''Stephanie'', ''Timothy'', ''Rebecca'', ''Jason'', ''Sharon'', ''Jeffrey'', ''Laura'',
  ''Ryan'', ''Cynthia'', ''Jacob'', ''Kathleen'', ''Gary'', ''Amy'', ''Nicholas'', ''Angela'']"

definition lastNames :: "string list" where
  "lastNames = [
  ''Smith'', ''Johnson'', ''Williams'', ''Brown'', ''Jones'', ''Garcia'', ''Miller'', ''Davis'',
  ''Rodriguez'', ''Martinez'', ''Hernandez'', ''Lopez'', ''Gonzalez'', ''Wilson'', ''Anderson'',
  ''Thomas'', ''Taylor'', ''Moore'', ''Jackson'', ''Martin'', ''Lee'', ''Perez'', ''Thompson'',
  ''White'', ''Harris'', ''Sanchez'', ''Clark'', ''Ramirez'', ''Lewis'', ''Robinson'', ''Walker'',
  ''Young'', ''Allen'', ''King'', ''Wright'', ''Scott'', ''Torres'', ''Nguyen'', ''Hill'', ''Flores'',
  ''Green'', ''Adams'', ''Nelson'', ''Baker'', ''Hall'', ''Rivera'', ''Campbell'', ''Mitchell'',
  ''Carter'', ''Roberts'', ''Gomez'', ''Phillips'', ''Evans'', ''Turner'', ''Diaz'', ''Parker'']"

definition domains :: "string list" where
  "domains = [''gmail.com'', ''yahoo.com'', ''outlook.com'', ''hotmail.com'', ''company.com'',
     ''icloud.com'', ''protonmail.com'', ''mail.com'']"

definition agents :: "string list" where
  "agents = [''Karthey Mishra'', ''Agent Smith'', ''Agent Jones'', ''Agent Brown'',
     ''Agent Taylor'', ''Agent Wilson'', ''Agent Anderson'', ''Agent Thomas'']"

text \<open>
  \<open>generateCustomer(id)\<close>. The first argument is the value \<open>Date.now()\<close> returns during the
  call (the reference time, in milliseconds).
\<close>

definition generateCustomer :: "int \<Rightarrow> nat \<Rightarrow> customer" where
  "generateCustomer now i =
     (let firstName = firstNames ! (i mod length firstNames);
          lastNameIndex = (i div length firstNames) mod length lastNames;
          lastName = lastNames ! lastNameIndex;
          name = firstName @ '' '' @ lastName;
          emailPrefix = toLowerCase firstName @ ''.'' @ toLowerCase lastName;
          domain = domains ! (i mod length domains);
          email = emailPrefix @ String_of i @ ''@'' @ domain;
          phone = ''+1'' @ padStart (String_of i) 10 (CHR ''0'');
          score = (i * 7) mod 100;
          addedBy = agents ! (i mod length agents);
          daysAgo = i mod 365;
          lastMessageAt = now - int daysAgo * 24 * 60 * 60 * 1000
      in \<lparr> cid = i, name = name, phone = phone, email = email, score = score,
           lastMessageAt = lastMessageAt, addedBy = addedBy,
           avatar = ''https://api.dicebear.com/7.x/avataaars/svg?seed='' @ String_of i \<rparr>)"

text \<open>\<open>generateCustomers(count)\<close>: the records for the ids \<open>1..count\<close>, in order.\<close>

definition generateCustomers :: "int \<Rightarrow> nat \<Rightarrow> customer list" where
  "generateCustomers now n = map (generateCustomer now) [1..<n + 1]"

section \<open>The persisted store and the query engine (indexedDB.js)\<close>

text \<open>
  The object store has key path \<open>id\<close>; a cursor opened on it visits the records by
  ascending key. A store state is the list of its records in cursor order. The application
  fills the store with the generated records of the ids \<open>1..10000\<close>, in batches of 1000.
\<close>

type_synonym store = "customer list"

definition VIRTUAL_TOTAL :: int where
  "VIRTUAL_TOTAL = 1000000"

definition ACTUAL_STORED :: int where
  "ACTUAL_STORED = 10000"

text \<open>\<open>generateVirtualCustomer(id)\<close>, with the tables it declares locally.\<close>

definition virtualFirstNames :: "string list" where
  "virtualFirstNames = [''James'', ''Mary'', ''John'', ''Patricia'', ''Robert'', ''Jennifer'',
     ''Michael'', ''Linda'']"

definition virtualLastNames :: "string list" where
  "virtualLastNames = [''Smith'', ''Johnson'', ''Williams'', ''Brown'', ''Jones'', ''Garcia'',
     ''Miller'', ''Davis'']"

definition virtualDomains :: "string list" where
  "virtualDomains = [''gmail.com'', ''yahoo.com'', ''outlook.com'']"

definition virtualAgents :: "string list" where
  "virtualAgents = [''Karthey Mishra'', ''Agent Smith'', ''Agent Jones'', ''Agent Brown'']"

definition generateVirtualCustomer :: "int \<Rightarrow> nat \<Rightarrow> customer" where
  "generateVirtualCustomer now i =
     (let firstName = virtualFirstNames ! (i mod length virtualFirstNames);
          lastName = virtualLastNames ! ((i div length virtualFirstNames) mod length virtualLastNames);
          name = firstName @ '' '' @ lastName;
          email = toLowerCase firstName @ ''.'' @ toLowerCase lastName @ String_of i @ ''@''
                    @ virtualDomains ! (i mod length virtualDomains);
          phone = ''+1'' @ padStart (String_of i) 10 (CHR ''0'');
          score = (i * 7) mod 100;
          addedBy = virtualAgents ! (i mod length virtualAgents);
          lastMessageAt = now - int (i mod 365) * 24 * 60 * 60 * 1000
      in \<lparr> cid = i, name = name, phone = phone, email = email, score = score,
           lastMessageAt = lastMessageAt, addedBy = addedBy,
           avatar = ''https://api.dicebear.com/7.x/avataaars/svg?seed='' @ String_of i \<rparr>)"

datatype sortField = SortId | SortName | SortPhone | SortEmail | SortScore | SortLastMessageAt

datatype sortOrder = Asc | Desc

record query =
  offset :: int
  limit :: int
  search :: string
  sortBy :: sortField
  sortOrder :: sortOrder

record result =
  data :: "customer list"
  total_r :: int
  hasMore :: bool

text \<open>
  The only failure the query code itself can raise: reading a property of \<open>null\<close> inside the
  sort comparator. It is raised inside the cursor callback, so the promise returned by
  \<open>getCustomers\<close> is never settled.
\<close>

datatype error = TypeError

text \<open>\<open>aVal > bVal\<close> and \<open>aVal < bVal\<close> for \<open>aVal = a[sortBy]\<close>, \<open>bVal = b[sortBy]\<close>: numbers
  compare numerically, strings lexicographically by character code, and \<open>lastMessageAt\<close>
  by the instant it denotes.\<close>

fun field_gt :: "sortField \<Rightarrow> customer \<Rightarrow> customer \<Rightarrow> bool" where
  "field_gt SortId a b = (cid a > cid b)"
| "field_gt SortName a b = (name a > name b)"
| "field_gt SortPhone a b = (phone a > phone b)"
| "field_gt SortEmail a b = (email a > email b)"
| "field_gt SortScore a b = (score a > score b)"
| "field_gt SortLastMessageAt a b = (lastMessageAt a > lastMessageAt b)"

fun field_lt :: "sortField \<Rightarrow> customer \<Rightarrow> customer \<Rightarrow> bool" where
  "field_lt SortId a b = (cid a < cid b)"
| "field_lt SortName a b = (name a < name b)"
| "field_lt SortPhone a b = (phone a < phone b)"
| "field_lt SortEmail a b = (email a < email b)"
| "field_lt SortScore a b = (score a < score b)"
| "field_lt SortLastMessageAt a b = (lastMessageAt a < lastMessageAt b)"

text \<open>The comparator both query paths pass to \<open>sort\<close>.\<close>

definition compareFn :: "sortField \<Rightarrow> sortOrder \<Rightarrow> customer \<Rightarrow> customer \<Rightarrow> int" where
  "compareFn fld ord a b =
     (if ord = Asc then (if field_gt fld a b then 1 else - 1)
      else (if field_lt fld a b then 1 else - 1))"

text \<open>In the no-search path the array can still hold \<open>null\<close> placeholders, on which the
  comparator throws.\<close>

definition compareNullable ::
  "sortField \<Rightarrow> sortOrder \<Rightarrow> customer option \<Rightarrow> customer option \<Rightarrow> error + int" where
  "compareNullable fld ord a b =
     (case a of
        None \<Rightarrow> Inl TypeError
      | Some a' \<Rightarrow>
          (case b of
             None \<Rightarrow> Inl TypeError
           | Some b' \<Rightarrow> Inr (compareFn fld ord a' b')))"

text \<open>
  \<open>Array.prototype.sort(compareFn)\<close> is a built-in of the host, modelled as an insertion
  sort driven by the comparator: an element goes behind those the comparator ranks before
  it (a positive result). A comparator that throws aborts the sort. An array of fewer than
  two elements is returned without calling the comparator. The comparator of this program
  never returns 0, so the host is free in how it arranges records with equal keys; the
  properties below (which records the result holds, and that their keys are in order) do
  not depend on that arrangement.
\<close>

fun insert_by :: "('a \<Rightarrow> 'a \<Rightarrow> error + int) \<Rightarrow> 'a \<Rightarrow> 'a list \<Rightarrow> error + 'a list" where
  "insert_by cmp x [] = Inr [x]"
| "insert_by cmp x (y # ys) =
     (case cmp x y of
        Inl e \<Rightarrow> Inl e
      | Inr c \<Rightarrow>
          if c > 0
          then (case insert_by cmp x ys of Inl e \<Rightarrow> Inl e | Inr zs \<Rightarrow> Inr (y # zs))
          else Inr (x # y # ys))"

fun array_sort :: "('a \<Rightarrow> 'a \<Rightarrow> error + int) \<Rightarrow> 'a list \<Rightarrow> error + 'a list" where
  "array_sort cmp [] = Inr []"
| "array_sort cmp (x # xs) =
     (case array_sort cmp xs of Inl e \<Rightarrow> Inl e | Inr ys \<Rightarrow> insert_by cmp x ys)"

text \<open>The loop \<open>for (let i = start; i < end; i++)\<close> that fills \<open>results\<close> with placeholders
  and virtual customers.\<close>

function fill_results :: "int \<Rightarrow> int \<Rightarrow> int \<Rightarrow> customer option list \<Rightarrow> customer option list" where
  "fill_results now i fin results =
     (if i < fin
      then fill_results now (i + 1) fin
             (results @ [if i < ACTUAL_STORED then None
                         else Some (generateVirtualCustomer now (nat (i + 1)))])
      else results)"
  by pat_completeness auto
termination
  by (relation "measure (\<lambda>(now, i, fin, results). nat (fin - i))") auto

declare fill_results.simps [simp del]

text \<open>The cursor callback: \<open>cnt\<close> counts the records visited so far; the records at the
  positions \<open>start \<le> cnt < end\<close> are collected in \<open>realData\<close>; the walk stops at the end of
  the store or once \<open>cnt\<close> reaches \<open>end\<close>.\<close>

fun cursor_loop :: "store \<Rightarrow> int \<Rightarrow> int \<Rightarrow> int \<Rightarrow> customer list \<Rightarrow> customer list" where
  "cursor_loop [] cnt start fin realData = realData"
| "cursor_loop (v # rest) cnt start fin realData =
     (if cnt < fin
      then cursor_loop rest (cnt + 1) start fin
             (if cnt \<ge> start \<and> cnt < fin then realData @ [v] else realData)
      else realData)"

text \<open>\<open>realData.forEach((customer, idx) => { results[idx] = customer; })\<close>. An assignment
  at \<open>idx = results.length\<close> appends; a larger index cannot occur, since \<open>forEach\<close> visits
  the indices in order.\<close>

fun merge_real :: "customer list \<Rightarrow> nat \<Rightarrow> customer option list \<Rightarrow> customer option list" where
  "merge_real [] idx results = results"
| "merge_real (customer # rest) idx results =
     merge_real rest (idx + 1)
       (if idx < length results then results[idx := Some customer]
        else results @ [Some customer])"

text \<open>The search predicate of the cursor callback.\<close>

definition matches :: "string \<Rightarrow> customer \<Rightarrow> bool" where
  "matches term customer =
     (let searchLower = toLowerCase term
      in str_includes (toLowerCase (name customer)) searchLower \<or>
         str_includes (toLowerCase (email customer)) searchLower \<or>
         str_includes (phone customer) term)"

text \<open>
  \<open>getCustomers({offset, limit, search, sortBy, sortOrder})\<close> on a store state. The first
  argument is the reference time handed to the virtual generator (the source reads the
  clock once per record; one reading stands for the whole query here). \<open>Inr\<close> is the value
  the promise resolves to; \<open>Inl TypeError\<close> says the callback threw and nothing is
  returned.
\<close>

definition getCustomers :: "int \<Rightarrow> store \<Rightarrow> query \<Rightarrow> error + result" where
  "getCustomers now store q =
     (if search q = [] then
        (let start = offset q;
             fin = min (offset q + limit q) VIRTUAL_TOTAL;
             results = fill_results now start fin [];
             realData = cursor_loop store 0 start fin [];
             merged = merge_real realData 0 results
         in case (if sortBy q \<noteq> SortId
                  then array_sort (compareNullable (sortBy q) (sortOrder q)) merged
                  else Inr merged) of
              Inl e \<Rightarrow> Inl e
            | Inr srt \<Rightarrow>
                Inr \<lparr> data = map the (filter (\<lambda>r. r \<noteq> None) srt),
                      total_r = VIRTUAL_TOTAL,
                      hasMore = (fin < VIRTUAL_TOTAL) \<rparr>)
      else
        (let results = filter (matches (search q)) store
         in case array_sort (\<lambda>a b. Inr (compareFn (sortBy q) (sortOrder q) a b)) results of
              Inl e \<Rightarrow> Inl e
            | Inr srt \<Rightarrow>
                Inr \<lparr> data = js_slice srt (offset q) (offset q + limit q),
                      total_r = int (length srt),
                      hasMore = (int (length srt) > offset q + limit q) \<rparr>))"

section \<open>Navigation (CustomerTable.jsx)\<close>

definition ITEMS_PER_PAGE :: int where
  "ITEMS_PER_PAGE = 30"

text \<open>
  The value of a division whose result is only displayed (\<open>scrollPercentage\<close>): a
  quotient, or one of the three special values a division by zero produces.
\<close>

datatype jsnum = Finite real | PosInfinity | NegInfinity | NaN

definition js_div :: "int \<Rightarrow> int \<Rightarrow> jsnum" where
  "js_div a b =
     (if b \<noteq> 0 then Finite (real_of_int a / real_of_int b)
      else if a > 0 then PosInfinity
      else if a < 0 then NegInfinity
      else NaN)"

text \<open>The component state the navigation handlers read and write.\<close>

record nav =
  customers :: "customer list"
  loading :: bool
  searchTerm :: string
  navSortBy :: sortField
  navSortOrder :: sortOrder
  totalCount :: int
  currentRow :: int
  scrollPercentage :: jsnum

text \<open>
  \<open>loadCustomersAtOffset(offset)\<close>, with the awaited query run to completion. When the
  query never settles, \<open>loading\<close> stays set and nothing else is written.
\<close>

definition loadCustomersAtOffset :: "int \<Rightarrow> store \<Rightarrow> nav \<Rightarrow> int \<Rightarrow> nav" where
  "loadCustomersAtOffset now store s off =
     (case getCustomers now store
             \<lparr> offset = off, limit = ITEMS_PER_PAGE, search = searchTerm s,
               sortBy = navSortBy s, sortOrder = navSortOrder s \<rparr> of
        Inr res \<Rightarrow>
          s\<lparr> customers := data res, totalCount := total_r res, currentRow := off + 1,
             loading := False \<rparr>
      | Inl e \<Rightarrow> s\<lparr> loading := True \<rparr>)"

text \<open>
  \<open>updateScrollPosition\<close>: the flag says that \<open>scrollbarRef.current\<close> is set (the handler
  returns at once otherwise), \<open>y\<close> is \<open>e.clientY - rect.top\<close> and \<open>height\<close> is
  \<open>rect.height\<close>. The fraction is \<open>Math.max(0, Math.min(1, y / height))\<close>; for a zero
  height the quotient is infinite (clamped to 1 or 0) or, for \<open>y = 0\<close>, not a number: then
  no fraction and no target offset is modelled (\<open>None\<close>). The fraction and its product
  with the total are exact reals here; the clamp that follows bounds the offset whatever
  the rounding of the floating-point product.
\<close>

definition scrollFraction :: "real \<Rightarrow> real \<Rightarrow> real option" where
  "scrollFraction y height =
     (if height = 0
      then (if y > 0 then Some 1 else if y < 0 then Some 0 else None)
      else Some (max 0 (min 1 (y / height))))"

definition updateScrollPosition_target ::
  "int \<Rightarrow> bool \<Rightarrow> real \<Rightarrow> real \<Rightarrow> int option" where
  "updateScrollPosition_target totalN mounted y height =
     (if \<not> mounted then None
      else
        (case scrollFraction y height of
           None \<Rightarrow> None
         | Some percentage \<Rightarrow>
             (let targetRow = \<lfloor>percentage * real_of_int totalN\<rfloor>
              in Some (max 0 (min (totalN - ITEMS_PER_PAGE) targetRow)))))"

definition updateScrollPosition ::
  "int \<Rightarrow> store \<Rightarrow> nav \<Rightarrow> bool \<Rightarrow> real \<Rightarrow> real \<Rightarrow> nav option" where
  "updateScrollPosition now store s mounted y height =
     (if \<not> mounted then Some s
      else
        (case scrollFraction y height of
           None \<Rightarrow> None
         | Some percentage \<Rightarrow>
             (case updateScrollPosition_target (totalCount s) mounted y height of
                None \<Rightarrow> None
              | Some off \<Rightarrow>
                  Some (loadCustomersAtOffset now store
                          (s\<lparr> scrollPercentage := Finite percentage \<rparr>) off))))"

text \<open>\<open>handleWheel\<close>: one page down for a positive \<open>deltaY\<close>, one page up otherwise.\<close>

definition handleWheel_target :: "int \<Rightarrow> int \<Rightarrow> real \<Rightarrow> int" where
  "handleWheel_target totalN row deltaY =
     (let delta = (if deltaY > 0 then ITEMS_PER_PAGE else - ITEMS_PER_PAGE)
      in max 0 (min (totalN - ITEMS_PER_PAGE) (row - 1 + delta)))"

definition handleWheel :: "int \<Rightarrow> store \<Rightarrow> nav \<Rightarrow> real \<Rightarrow> nav" where
  "handleWheel now store s deltaY =
     (let newOffset = handleWheel_target (totalCount s) (currentRow s) deltaY
      in loadCustomersAtOffset now store
           (s\<lparr> scrollPercentage := js_div newOffset (totalCount s) \<rparr>) newOffset)"

text \<open>\<open>handleKeyDown\<close>: the flag says that the event target is an \<open>INPUT\<close> element.\<close>

datatype key = ArrowDown | ArrowUp | PageDown | PageUp | Home | End | OtherKey

definition handleKeyDown_target :: "int \<Rightarrow> int \<Rightarrow> bool \<Rightarrow> key \<Rightarrow> int option" where
  "handleKeyDown_target totalN row inInput k =
     (if inInput then None
      else
        (let newOffset = row - 1
         in case k of
              ArrowDown \<Rightarrow> Some (min (totalN - ITEMS_PER_PAGE) (newOffset + 1))
            | ArrowUp \<Rightarrow> Some (max 0 (newOffset - 1))
            | PageDown \<Rightarrow> Some (min (totalN - ITEMS_PER_PAGE) (newOffset + ITEMS_PER_PAGE))
            | PageUp \<Rightarrow> Some (max 0 (newOffset - ITEMS_PER_PAGE))
            | Home \<Rightarrow> Some 0
            | End \<Rightarrow> Some (totalN - ITEMS_PER_PAGE)
            | OtherKey \<Rightarrow> None))"

definition handleKeyDown :: "int \<Rightarrow> store \<Rightarrow> nav \<Rightarrow> bool \<Rightarrow> key \<Rightarrow> nav" where
  "handleKeyDown now store s inInput k =
     (case handleKeyDown_target (totalCount s) (currentRow s) inInput k of
        None \<Rightarrow> s
      | Some newOffset \<Rightarrow>
          loadCustomersAtOffset now store
            (s\<lparr> scrollPercentage := js_div newOffset (totalCount s) \<rparr>) newOffset)"

text \<open>
  \<open>handleJumpToRow\<close>: the argument is \<open>parseInt(input.value)\<close>, \<open>None\<close> when the field does
  not start with a number; both comparisons of the guard are false then.
\<close>

definition handleJumpToRow_target :: "int \<Rightarrow> int option \<Rightarrow> int option" where
  "handleJumpToRow_target totalN rowNumber =
     (case rowNumber of
        None \<Rightarrow> None
      | Some r \<Rightarrow> if r \<ge> 1 \<and> r \<le> totalN then Some (max 0 (r - 1)) else None)"

definition handleJumpToRow :: "int \<Rightarrow> store \<Rightarrow> nav \<Rightarrow> int option \<Rightarrow> nav" where
  "handleJumpToRow now store s rowNumber =
     (case handleJumpToRow_target (totalCount s) rowNumber of
        None \<Rightarrow> s
      | Some off \<Rightarrow>
          loadCustomersAtOffset now store
            (s\<lparr> scrollPercentage := js_div off (totalCount s) \<rparr>) off)"

section \<open>Notions used in the statements and proofs\<close>

text \<open>Decimal digits, and the run of digits that an email address embeds.\<close>

definition isDigit :: "char \<Rightarrow> bool" where
  "isDigit c = (c \<in> set ''0123456789'')"

definition emailDigits :: "string \<Rightarrow> string" where
  "emailDigits s = takeWhile isDigit (dropWhile (\<lambda>c. \<not> isDigit c) s)"

text \<open>The entry that the filling loop writes for window index \<open>k\<close>.\<close>

definition placeholder :: "int \<Rightarrow> nat \<Rightarrow> customer option" where
  "placeholder now k =
     (if int k < ACTUAL_STORED then None else Some (generateVirtualCustomer now (k + 1)))"

text \<open>The array \<open>results\<close> of the no-search path after the merge and before the sort.\<close>

definition window :: "int \<Rightarrow> store \<Rightarrow> query \<Rightarrow> customer option list" where
  "window now store q =
     (let start = offset q;
          fin = min (offset q + limit q) VIRTUAL_TOTAL
      in merge_real (cursor_loop store 0 start fin []) 0 (fill_results now start fin []))"

text \<open>
  The order a sorted page is measured against: \<open>field_le\<close> compares two records on the
  sort field, \<open>before\<close> reads it in the direction of the sort order.
\<close>

fun field_le :: "sortField \<Rightarrow> customer \<Rightarrow> customer \<Rightarrow> bool" where
  "field_le SortId a b = (cid a \<le> cid b)"
| "field_le SortName a b = (name a \<le> name b)"
| "field_le SortPhone a b = (phone a \<le> phone b)"
| "field_le SortEmail a b = (email a \<le> email b)"
| "field_le SortScore a b = (score a \<le> score b)"
| "field_le SortLastMessageAt a b = (lastMessageAt a \<le> lastMessageAt b)"

definition before :: "sortField \<Rightarrow> sortOrder \<Rightarrow> customer \<Rightarrow> customer \<Rightarrow> bool" where
  "before fld ord a b = (if ord = Asc then field_le fld a b else field_le fld b a)"

definition before_opt ::
  "sortField \<Rightarrow> sortOrder \<Rightarrow> customer option \<Rightarrow> customer option \<Rightarrow> bool" where
  "before_opt fld ord a b =
     (case a of None \<Rightarrow> False
      | Some a' \<Rightarrow> (case b of None \<Rightarrow> False | Some b' \<Rightarrow> before fld ord a' b'))"

text \<open>
  The matching rule in the words of the specification: the name or the email contains the
  term when both sides are put in lower case, or the phone contains the term as it is.
\<close>

definition matchesRule :: "string \<Rightarrow> customer \<Rightarrow> bool" where
  "matchesRule term c =
     (sublist (toLowerCase term) (toLowerCase (name c))
      \<or> sublist (toLowerCase term) (toLowerCase (email c))
      \<or> sublist term (phone c))"

text \<open>The characters a generated phone number is made of.\<close>

definition phoneChar :: "char \<Rightarrow> bool" where
  "phoneChar ch = (ch = CHR ''+'' \<or> isDigit ch)"

section \<open>The generator\<close>

lemma String_of_small: "n < 10 \<Longrightarrow> String_of n = [digitChar n]"
  by (simp add: String_of.simps)

lemma String_of_big:
  "10 \<le> n \<Longrightarrow> String_of n = String_of (n div 10) @ [digitChar (n mod 10)]"
  by (subst String_of.simps) simp

lemma isDigit_digitChar: "d < 10 \<Longrightarrow> isDigit (digitChar d)"
  unfolding isDigit_def digitChar_def by (rule nth_mem) simp

lemma digitChar_inj: "d < 10 \<Longrightarrow> e < 10 \<Longrightarrow> digitChar d = digitChar e \<Longrightarrow> d = e"
  unfolding digitChar_def by (subst (asm) nth_eq_iff_index_eq) simp_all

lemma String_of_not_Nil: "String_of n \<noteq> []"
  by (subst String_of.simps) simp

lemma String_of_digits: "c \<in> set (String_of n) \<Longrightarrow> isDigit c"
proof (induction n rule: String_of.induct)
  case (1 n)
  show ?case
  proof (cases "n < 10")
    case True
    with "1.prems" show ?thesis
      by (simp add: String_of_small isDigit_digitChar)
  next
    case False
    with "1.prems" "1.IH" show ?thesis
      by (auto simp: String_of_big isDigit_digitChar)
  qed
qed

lemma String_of_length_one: "length (String_of n) = Suc 0 \<longleftrightarrow> n < 10"
proof (cases "n < 10")
  case True
  then show ?thesis by (simp add: String_of_small)
next
  case False
  moreover have "length (String_of (n div 10)) \<noteq> 0"
    using String_of_not_Nil by simp
  ultimately show ?thesis by (simp add: String_of_big)
qed

lemma String_of_inj: "String_of n = String_of m \<Longrightarrow> n = m"
proof (induction n arbitrary: m rule: String_of.induct)
  case (1 n)
  show ?case
  proof (cases "n < 10")
    case True
    then have "length (String_of m) = Suc 0"
      using "1.prems" String_of_length_one [of n] by simp
    then have m: "m < 10" by (simp add: String_of_length_one)
    with True "1.prems" show ?thesis
      by (simp add: String_of_small digitChar_inj)
  next
    case False
    then have "length (String_of m) \<noteq> Suc 0"
      using "1.prems" String_of_length_one [of n] by simp
    then have m: "\<not> m < 10" by (simp add: String_of_length_one)
    with False "1.prems" have eq: "String_of (n div 10) = String_of (m div 10)"
      and d: "digitChar (n mod 10) = digitChar (m mod 10)"
      by (simp_all add: String_of_big)
    from "1.IH" [OF False eq] have "n div 10 = m div 10" .
    moreover from d have "n mod 10 = m mod 10"
      by (rule digitChar_inj [rotated 2]) simp_all
    ultimately show ?thesis
      by (metis div_mult_mod_eq)
  qed
qed

lemma lowerChar_cases:
  "lowerChar c = c \<or> lowerChar c \<in> set ''abcdefghijklmnopqrstuvwxyz''"
  unfolding lowerChar_def
  by (auto split: option.splits dest!: map_of_SomeD)

lemma lowerChar_not_digit: "\<not> isDigit c \<Longrightarrow> \<not> isDigit (lowerChar c)"
  using lowerChar_cases [of c] by (auto simp: isDigit_def)

lemma firstNames_letters: "\<forall>n \<in> set firstNames. \<forall>c \<in> set n. \<not> isDigit c"
  by (simp add: firstNames_def isDigit_def)

lemma lastNames_letters: "\<forall>n \<in> set lastNames. \<forall>c \<in> set n. \<not> isDigit c"
  by (simp add: lastNames_def isDigit_def)

lemma not_isDigit_at: "\<not> isDigit (CHR ''@'')" and not_isDigit_dot: "\<not> isDigit (CHR ''.'')"
  by (simp_all add: isDigit_def)

lemma emailDigits_shape:
  assumes "\<forall>c \<in> set pre. \<not> isDigit c"
  shows "emailDigits (pre @ String_of i @ CHR ''@'' # dm) = String_of i"
proof -
  obtain d ds where s: "String_of i = d # ds"
    using String_of_not_Nil [of i] by (cases "String_of i") auto
  have d: "isDigit d"
    using String_of_digits [of d i] s by simp
  have "dropWhile (\<lambda>c. \<not> isDigit c) (pre @ String_of i @ CHR ''@'' # dm)
          = dropWhile (\<lambda>c. \<not> isDigit c) (String_of i @ CHR ''@'' # dm)"
    using assms by (simp add: dropWhile_append2)
  also have "\<dots> = String_of i @ CHR ''@'' # dm"
    using d s by simp
  finally have "emailDigits (pre @ String_of i @ CHR ''@'' # dm)
                  = takeWhile isDigit (String_of i @ CHR ''@'' # dm)"
    by (simp add: emailDigits_def)
  also have "\<dots> = String_of i"
    using String_of_digits [of _ i] not_isDigit_at by (simp add: takeWhile_append2)
  finally show ?thesis .
qed

lemma length_firstNames: "length firstNames = 64"
  by (simp add: firstNames_def)

lemma length_lastNames: "length lastNames = 56"
  by (simp add: lastNames_def)

lemma toLowerCase_not_digit:
  "\<forall>c \<in> set n. \<not> isDigit c \<Longrightarrow> \<forall>c \<in> set (toLowerCase n). \<not> isDigit c"
  by (auto simp: toLowerCase_def lowerChar_not_digit)

lemma emailDigits_generateCustomer:
  "emailDigits (email (generateCustomer now i)) = String_of i"
proof -
  let ?f = "firstNames ! (i mod length firstNames)"
  let ?l = "lastNames ! ((i div length firstNames) mod length lastNames)"
  have "?f \<in> set firstNames"
    by (rule nth_mem) (simp add: length_firstNames)
  then have f: "\<forall>c \<in> set (toLowerCase ?f). \<not> isDigit c"
    using firstNames_letters by (intro toLowerCase_not_digit) blast
  have "?l \<in> set lastNames"
    by (rule nth_mem) (simp add: length_lastNames)
  then have l: "\<forall>c \<in> set (toLowerCase ?l). \<not> isDigit c"
    using lastNames_letters by (intro toLowerCase_not_digit) blast
  have pre: "\<forall>c \<in> set (toLowerCase ?f @ ''.'' @ toLowerCase ?l). \<not> isDigit c"
    using f l not_isDigit_dot by auto
  have "email (generateCustomer now i)
          = (toLowerCase ?f @ ''.'' @ toLowerCase ?l) @ String_of i
              @ CHR ''@'' # domains ! (i mod length domains)"
    by (simp add: generateCustomer_def Let_def)
  then show ?thesis
    using emailDigits_shape [OF pre] by simp
qed

text \<open>
  Claim C9. Two generated records with different ids have different email addresses, at
  whatever reference times they are generated: the digits between the digit-free name
  prefix and the \<open>@\<close> are the decimal rendering of the id, which determines the id.
\<close>

theorem email_unique:
  "id1 \<noteq> id2 \<Longrightarrow> email (generateCustomer now1 id1) \<noteq> email (generateCustomer now2 id2)"
proof
  assume ne: "id1 \<noteq> id2"
    and eq: "email (generateCustomer now1 id1) = email (generateCustomer now2 id2)"
  from eq have "emailDigits (email (generateCustomer now1 id1))
                  = emailDigits (email (generateCustomer now2 id2))"
    by simp
  then have "String_of id1 = String_of id2"
    by (simp add: emailDigits_generateCustomer)
  then have "id1 = id2" by (rule String_of_inj)
  with ne show False by simp
qed

theorem email_unique_witness:
  "(1::nat) \<noteq> 65 \<and> email (generateCustomer 0 1) \<noteq> email (generateCustomer 0 65)
   \<and> name (generateCustomer 0 1) = ''Mary Smith''"
proof -
  have h: "(1::nat) \<noteq> 65" by simp
  show ?thesis
    using h email_unique [OF h, of 0 0]
    by (simp add: generateCustomer_def Let_def firstNames_def lastNames_def)
qed

text \<open>
  Claim C8. For every id, the records generated at two reference times are identical
  exactly when the reference times are equal, and at different reference times they still
  agree on every field other than \<open>lastMessageAt\<close>.
\<close>

theorem generator_deterministic:
  "(generateCustomer now1 i = generateCustomer now2 i \<longleftrightarrow> now1 = now2) \<and>
   generateCustomer now1 i
     = (generateCustomer now2 i)\<lparr>lastMessageAt := lastMessageAt (generateCustomer now1 i)\<rparr>"
  by (auto simp: generateCustomer_def Let_def)

section \<open>The query engine\<close>

lemma fill_results_eq:
  "0 \<le> i \<Longrightarrow> fill_results now i fin acc = acc @ map (placeholder now) [nat i..<nat fin]"
proof (induction now i fin acc rule: fill_results.induct)
  case (1 now i fin results)
  show ?case
  proof (cases "i < fin")
    case True
    with "1.prems" have r: "[nat i..<nat fin] = nat i # [nat (i + 1)..<nat fin]"
      by (simp add: upt_rec [of "nat i"] nat_add_distrib)
    have s: "nat (i + 1) = nat i + 1"
      using "1.prems" by (simp add: nat_add_distrib)
    have "fill_results now i fin results
            = fill_results now (i + 1) fin
                (results @ [if i < ACTUAL_STORED then None
                            else Some (generateVirtualCustomer now (nat (i + 1)))])"
      using True by (subst fill_results.simps) simp
    also have "\<dots> = (results @ [placeholder now (nat i)]) @ map (placeholder now) [nat (i + 1)..<nat fin]"
      using "1.IH" [OF True] "1.prems" s by (simp add: placeholder_def)
    finally show ?thesis
      using r by simp
  next
    case False
    with "1.prems" show ?thesis
      by (subst fill_results.simps) simp
  qed
qed

lemma cursor_loop_eq:
  "cursor_loop st cnt start fin acc
     = acc @ take (nat (fin - max start cnt)) (drop (nat (start - cnt)) st)"
proof (induction st arbitrary: cnt acc)
  case Nil
  show ?case by simp
next
  case (Cons v rest)
  show ?case
  proof (cases "cnt < fin")
    case False
    then show ?thesis by simp
  next
    case lt: True
    show ?thesis
    proof (cases "start \<le> cnt")
      case True
      with lt have n: "nat (fin - cnt) = Suc (nat (fin - (cnt + 1)))"
        by simp
      from True have m: "max start cnt = cnt" "max start (cnt + 1) = cnt + 1"
        by simp_all
      from True lt show ?thesis
        by (simp add: Cons.IH m n)
    next
      case False
      with lt have n: "nat (start - cnt) = Suc (nat (start - (cnt + 1)))"
        by simp
      from False have m: "max start cnt = start" "max start (cnt + 1) = start"
        by simp_all
      from False lt show ?thesis
        by (simp add: Cons.IH m n)
    qed
  qed
qed

lemma merge_real_eq:
  "idx \<le> length results \<Longrightarrow>
   merge_real rd idx results
     = take idx results @ map Some rd @ drop (idx + length rd) results"
proof (induction rd arbitrary: idx results)
  case Nil
  then show ?case by simp
next
  case (Cons c rest)
  show ?case
  proof (cases "idx < length results")
    case True
    then have "merge_real (c # rest) idx results = merge_real rest (idx + 1) (results[idx := Some c])"
      by simp
    also have "\<dots> = take (idx + 1) (results[idx := Some c]) @ map Some rest
                        @ drop (idx + 1 + length rest) (results[idx := Some c])"
      using True by (intro Cons.IH) simp
    also have "take (idx + 1) (results[idx := Some c]) = take idx results @ [Some c]"
      using True by (simp add: take_Suc_conv_app_nth)
    also have "drop (idx + 1 + length rest) (results[idx := Some c])
                 = drop (idx + 1 + length rest) results"
      by simp
    finally show ?thesis by simp
  next
    case False
    with Cons.prems have e: "idx = length results" by simp
    then have "merge_real (c # rest) idx results = merge_real rest (idx + 1) (results @ [Some c])"
      by simp
    also have "\<dots> = take (idx + 1) (results @ [Some c]) @ map Some rest
                        @ drop (idx + 1 + length rest) (results @ [Some c])"
      using e by (intro Cons.IH) simp
    finally show ?thesis using e by simp
  qed
qed

lemma filter_ge_upt: "filter (\<lambda>k. c \<le> k) [a..<b] = [max a c..<b]"
proof (induction b)
  case 0
  show ?case by simp
next
  case (Suc b)
  then show ?case by (auto simp: max_def not_less_eq_eq)
qed

lemma present_placeholders:
  "map the (filter (\<lambda>r. r \<noteq> None) (map (placeholder now) [a..<b]))
     = map (\<lambda>k. generateVirtualCustomer now (k + 1)) [max a (nat ACTUAL_STORED)..<b]"
proof -
  have k: "0 \<le> ACTUAL_STORED" by (simp add: ACTUAL_STORED_def)
  have "filter (\<lambda>r. r \<noteq> None) (map (placeholder now) [a..<b])
          = map (placeholder now) (filter (\<lambda>k. nat ACTUAL_STORED \<le> k) [a..<b])"
    using k by (auto simp: filter_map o_def placeholder_def intro!: arg_cong [where f = "map _"] filter_cong)
  then show ?thesis
    using k by (auto simp: filter_ge_upt placeholder_def)
qed

lemma window_eq:
  assumes "0 \<le> offset q"
  shows "window now store q =
           map Some (take (nat (min (offset q + limit q) VIRTUAL_TOTAL) - nat (offset q))
                       (drop (nat (offset q)) store))
           @ map (placeholder now)
               [nat (offset q) + min (length store - nat (offset q))
                                   (nat (min (offset q + limit q) VIRTUAL_TOTAL) - nat (offset q))
                ..<nat (min (offset q + limit q) VIRTUAL_TOTAL)]"
proof -
  define a where "a = nat (offset q)"
  define fin where "fin = min (offset q + limit q) VIRTUAL_TOTAL"
  define b where "b = nat fin"
  define rd where "rd = take (b - a) (drop a store)"
  have "nat (fin - offset q) = nat fin - nat (offset q)"
    using assms by arith
  then have c: "cursor_loop store 0 (offset q) fin [] = rd"
    using assms by (simp add: cursor_loop_eq rd_def a_def b_def)
  have f: "fill_results now (offset q) fin [] = map (placeholder now) [a..<b]"
    using assms by (simp add: fill_results_eq a_def b_def)
  have l: "length rd = min (length store - a) (b - a)"
    by (simp add: rd_def)
  have "window now store q = merge_real rd 0 (map (placeholder now) [a..<b])"
    by (simp add: window_def Let_def c f fin_def [symmetric])
  also have "\<dots> = map Some rd @ drop (length rd) (map (placeholder now) [a..<b])"
    by (simp add: merge_real_eq)
  also have "drop (length rd) (map (placeholder now) [a..<b])
               = map (placeholder now) [a + length rd..<b]"
    by (simp add: drop_map)
  finally show ?thesis
    by (simp add: l rd_def a_def b_def fin_def)
qed

lemma getCustomers_by_id:
  assumes "search q = []" and "sortBy q = SortId"
  shows "getCustomers now store q =
           Inr \<lparr> data = map the (filter (\<lambda>r. r \<noteq> None) (window now store q)),
                 total_r = VIRTUAL_TOTAL,
                 hasMore = (offset q + limit q < VIRTUAL_TOTAL) \<rparr>"
  using assms by (auto simp: getCustomers_def window_def Let_def)

lemma present_window:
  assumes "0 \<le> offset q"
  shows "map the (filter (\<lambda>r. r \<noteq> None) (window now store q)) =
           take (nat (min (offset q + limit q) VIRTUAL_TOTAL) - nat (offset q))
             (drop (nat (offset q)) store)
           @ map (\<lambda>k. generateVirtualCustomer now (k + 1))
               [max (max (nat (offset q)) (length store)) (nat ACTUAL_STORED)
                ..<nat (min (offset q + limit q) VIRTUAL_TOTAL)]"
proof -
  define a where "a = nat (offset q)"
  define b where "b = nat (min (offset q + limit q) VIRTUAL_TOTAL)"
  define len where "len = length store"
  define K where "K = nat ACTUAL_STORED"
  have "[max (a + min (len - a) (b - a)) K..<b] = [max (max a len) K..<b]"
  proof (cases "b \<le> len \<or> b \<le> a")
    case True
    then have "b \<le> max (a + min (len - a) (b - a)) K" "b \<le> max (max a len) K"
      by auto
    then show ?thesis by simp
  next
    case False
    then have "a + min (len - a) (b - a) = max a len" by auto
    then show ?thesis by (simp only:)
  qed
  then have r: "map (\<lambda>k. generateVirtualCustomer now (k + 1)) [max (a + min (len - a) (b - a)) K..<b]
                  = map (\<lambda>k. generateVirtualCustomer now (k + 1)) [max (max a len) K..<b]"
    by (simp only:)
  have p: "map the (filter (\<lambda>r. r \<noteq> None) (map Some (take (b - a) (drop a store))))
             = take (b - a) (drop a store)"
    by (simp add: filter_map o_def)
  have "window now store q
          = map Some (take (b - a) (drop a store))
            @ map (placeholder now) [a + min (len - a) (b - a)..<b]"
    unfolding window_eq [OF assms] a_def b_def len_def ..
  then have "map the (filter (\<lambda>r. r \<noteq> None) (window now store q))
          = map the (filter (\<lambda>r. r \<noteq> None) (map Some (take (b - a) (drop a store))))
            @ map the (filter (\<lambda>r. r \<noteq> None)
                (map (placeholder now) [a + min (len - a) (b - a)..<b]))"
    by (simp only: filter_append map_append)
  also have "\<dots> = take (b - a) (drop a store)
             @ map (\<lambda>k. generateVirtualCustomer now (k + 1)) [max (max a len) K..<b]"
    by (simp only: p present_placeholders K_def [symmetric] r)
  finally show ?thesis
    unfolding a_def b_def len_def K_def .
qed

lemma field_gt_iff: "field_gt fld a b \<longleftrightarrow> \<not> field_le fld a b"
  by (cases fld) auto

lemma field_lt_iff: "field_lt fld a b \<longleftrightarrow> \<not> field_le fld b a"
  by (cases fld) auto

lemma field_le_total: "field_le fld a b \<or> field_le fld b a"
  by (cases fld) auto

lemma field_le_trans: "field_le fld a b \<Longrightarrow> field_le fld b c \<Longrightarrow> field_le fld a c"
  by (cases fld) auto

lemma before_trans: "before fld ord a b \<Longrightarrow> before fld ord b c \<Longrightarrow> before fld ord a c"
  by (auto simp: before_def intro: field_le_trans split: if_splits)

lemma compareFn_not_pos: "\<not> compareFn fld ord a b > 0 \<Longrightarrow> before fld ord a b"
  by (auto simp: compareFn_def before_def field_gt_iff field_lt_iff split: if_splits)

lemma compareFn_pos: "compareFn fld ord a b > 0 \<Longrightarrow> before fld ord b a"
  using field_le_total [of fld a b]
  by (auto simp: compareFn_def before_def field_gt_iff field_lt_iff split: if_splits)

lemma before_opt_trans:
  "before_opt fld ord a b \<Longrightarrow> before_opt fld ord b c \<Longrightarrow> before_opt fld ord a c"
  by (auto simp: before_opt_def intro: before_trans split: option.splits)

lemma compareNullable_not_pos:
  "compareNullable fld ord a b = Inr c \<Longrightarrow> \<not> c > 0 \<Longrightarrow> before_opt fld ord a b"
  by (auto simp: compareNullable_def before_opt_def intro: compareFn_not_pos split: option.splits)

lemma compareNullable_pos:
  "compareNullable fld ord a b = Inr c \<Longrightarrow> c > 0 \<Longrightarrow> before_opt fld ord b a"
  by (auto simp: compareNullable_def before_opt_def intro: compareFn_pos split: option.splits)

lemma insert_by_mset: "insert_by cmp x ys = Inr zs \<Longrightarrow> mset zs = add_mset x (mset ys)"
  by (induction ys arbitrary: zs) (auto split: sum.splits if_splits)

lemma array_sort_mset: "array_sort cmp xs = Inr ys \<Longrightarrow> mset ys = mset xs"
  by (induction xs arbitrary: ys) (auto split: sum.splits dest: insert_by_mset)

lemma insert_by_sorted:
  assumes tr: "transp R"
    and cm: "\<forall>a b c. cmp a b = Inr c \<longrightarrow> (if c > 0 then R b a else R a b)"
  shows "sorted_wrt R ys \<Longrightarrow> insert_by cmp x ys = Inr zs \<Longrightarrow> sorted_wrt R zs"
proof (induction ys arbitrary: zs)
  case Nil
  then show ?case by auto
next
  case (Cons y ys)
  from Cons.prems(2) obtain c where c: "cmp x y = Inr c"
    by (auto split: sum.splits)
  show ?case
  proof (cases "c > 0")
    case True
    with c Cons.prems(2) obtain zs' where z: "insert_by cmp x ys = Inr zs'" "zs = y # zs'"
      by (auto split: sum.splits)
    from Cons.prems(1) have "sorted_wrt R ys" by simp
    then have s: "sorted_wrt R zs'" using z(1) by (rule Cons.IH)
    have "set zs' = insert x (set ys)"
      using insert_by_mset [OF z(1)] by (metis set_mset_add_mset_insert set_mset_mset)
    moreover have "R y x" using c True cm by fastforce
    ultimately show ?thesis
      using Cons.prems(1) s z(2) by auto
  next
    case False
    with c Cons.prems(2) have z: "zs = x # y # ys" by simp
    have xy: "R x y" using c False cm by fastforce
    then have "\<forall>z \<in> set ys. R x z"
      using Cons.prems(1) tr by (auto dest: transpD)
    with xy Cons.prems(1) z show ?thesis by simp
  qed
qed

lemma array_sort_sorted:
  assumes tr: "transp R"
    and cm: "\<forall>a b c. cmp a b = Inr c \<longrightarrow> (if c > 0 then R b a else R a b)"
  shows "array_sort cmp xs = Inr ys \<Longrightarrow> sorted_wrt R ys"
proof (induction xs arbitrary: ys)
  case Nil
  then show ?case by simp
next
  case (Cons x xs)
  then obtain ys' where y: "array_sort cmp xs = Inr ys'" "insert_by cmp x ys' = Inr ys"
    by (auto split: sum.splits)
  from y(1) have "sorted_wrt R ys'" by (rule Cons.IH)
  then show ?case using y(2) by (rule insert_by_sorted [OF tr cm])
qed

lemma insert_by_returns:
  "\<forall>y \<in> set ys. \<exists>c. cmp x y = Inr c \<Longrightarrow> \<exists>zs. insert_by cmp x ys = Inr zs"
  by (induction ys) (auto split: sum.splits)

lemma array_sort_returns:
  "\<forall>x \<in> set xs. \<forall>y \<in> set xs. \<exists>c. cmp x y = Inr c \<Longrightarrow> \<exists>ys. array_sort cmp xs = Inr ys"
proof (induction xs)
  case Nil
  show ?case by simp
next
  case (Cons x xs)
  then obtain ys where y: "array_sort cmp xs = Inr ys" by auto
  then have "set ys = set xs"
    using array_sort_mset by (metis set_mset_mset)
  with Cons.prems have "\<exists>zs. insert_by cmp x ys = Inr zs"
    by (intro insert_by_returns) auto
  with y show ?case by auto
qed

lemma array_sort_compareFn:
  "\<exists>ys. array_sort (\<lambda>a b. Inr (compareFn fld ord a b)) xs = Inr ys
        \<and> mset ys = mset xs \<and> sorted_wrt (before fld ord) ys"
proof -
  obtain ys where y: "array_sort (\<lambda>a b. Inr (compareFn fld ord a b)) xs = Inr ys"
    using array_sort_returns [of xs "\<lambda>a b. Inr (compareFn fld ord a b)"] by auto
  have "transp (before fld ord)"
    by (rule transpI) (rule before_trans)
  moreover have "\<forall>a b c. Inr (compareFn fld ord a b) = (Inr c :: error + int)
                  \<longrightarrow> (if c > 0 then before fld ord b a else before fld ord a b)"
    by (auto intro: compareFn_not_pos compareFn_pos)
  ultimately have "sorted_wrt (before fld ord) ys"
    using y by (rule array_sort_sorted)
  with y array_sort_mset [OF y] show ?thesis by auto
qed

lemma array_sort_nullable:
  assumes "array_sort (compareNullable fld ord) xs = Inr ys"
  shows "mset ys = mset xs"
    and "sorted_wrt (before fld ord) (map the (filter (\<lambda>r. r \<noteq> None) ys))"
proof -
  show "mset ys = mset xs" using assms by (rule array_sort_mset)
  have "transp (before_opt fld ord)"
    by (rule transpI) (rule before_opt_trans)
  moreover have "\<forall>a b c. compareNullable fld ord a b = Inr c
                  \<longrightarrow> (if c > 0 then before_opt fld ord b a else before_opt fld ord a b)"
    by (auto intro: compareNullable_not_pos compareNullable_pos)
  ultimately have "sorted_wrt (before_opt fld ord) ys"
    using assms by (rule array_sort_sorted)
  then have "sorted_wrt (before_opt fld ord) (filter (\<lambda>r. r \<noteq> None) ys)"
    by (rule sorted_wrt_filter)
  then have "sorted_wrt (\<lambda>a b. before fld ord (the a) (the b)) (filter (\<lambda>r. r \<noteq> None) ys)"
    by (rule sorted_wrt_mono_rel [rotated]) (auto simp: before_opt_def split: option.splits)
  then show "sorted_wrt (before fld ord) (map the (filter (\<lambda>r. r \<noteq> None) ys))"
    by (simp add: sorted_wrt_map)
qed

lemma array_sort_nullable_returns:
  "None \<notin> set xs \<Longrightarrow> \<exists>ys. array_sort (compareNullable fld ord) xs = Inr ys"
proof (rule array_sort_returns, intro ballI)
  fix x y
  assume "None \<notin> set xs" "x \<in> set xs" "y \<in> set xs"
  then obtain a b where "x = Some a" "y = Some b"
    by (cases x; cases y) auto
  then show "\<exists>c. compareNullable fld ord x y = Inr c"
    by (simp add: compareNullable_def)
qed

lemma str_includes_sublist: "str_includes s t \<longleftrightarrow> sublist t s"
  by (induction s) (auto simp: sublist_Cons_right)

lemma js_slice_nonneg:
  "0 \<le> start \<Longrightarrow> 0 \<le> n \<Longrightarrow> js_slice xs start (start + n) = take (nat n) (drop (nat start) xs)"
  by (auto simp: js_slice_def Let_def min_def)

lemma search_result:
  assumes "search q \<noteq> []"
  shows "\<exists>srt. getCustomers now store q =
            Inr \<lparr> data = js_slice srt (offset q) (offset q + limit q),
                  total_r = int (length srt),
                  hasMore = (int (length srt) > offset q + limit q) \<rparr>
          \<and> mset srt = mset (filter (matches (search q)) store)
          \<and> sorted_wrt (before (sortBy q) (sortOrder q)) srt"
proof -
  obtain srt where "array_sort (\<lambda>a b. Inr (compareFn (sortBy q) (sortOrder q) a b))
                      (filter (matches (search q)) store) = Inr srt"
    and "mset srt = mset (filter (matches (search q)) store)"
    and "sorted_wrt (before (sortBy q) (sortOrder q)) srt"
    using array_sort_compareFn by blast
  with assms show ?thesis
    by (intro exI [of _ srt]) (simp add: getCustomers_def Let_def)
qed

lemma getCustomers_no_search:
  assumes "search q = []"
  shows "getCustomers now store q =
           (case (if sortBy q \<noteq> SortId
                  then array_sort (compareNullable (sortBy q) (sortOrder q)) (window now store q)
                  else Inr (window now store q)) of
              Inl e \<Rightarrow> Inl e
            | Inr srt \<Rightarrow>
                Inr \<lparr> data = map the (filter (\<lambda>r. r \<noteq> None) srt),
                      total_r = VIRTUAL_TOTAL,
                      hasMore = (offset q + limit q < VIRTUAL_TOTAL) \<rparr>)"
proof -
  have "(min (offset q + limit q) VIRTUAL_TOTAL < VIRTUAL_TOTAL)
          = (offset q + limit q < VIRTUAL_TOTAL)"
    by auto
  with assms show ?thesis
    by (auto simp: getCustomers_def window_def Let_def split: sum.splits)
qed

lemma window_beyond_total:
  assumes "VIRTUAL_TOTAL \<le> offset q"
  shows "window now store q = []"
proof -
  have "0 \<le> offset q"
    using assms by (simp add: VIRTUAL_TOTAL_def)
  moreover have "nat (min (offset q + limit q) VIRTUAL_TOTAL) \<le> nat (offset q)"
    using assms by simp
  ultimately show ?thesis
    by (simp add: window_eq)
qed

text \<open>
  Claim C6. In every result a query returns, with or without a search term, \<open>hasMore\<close> is
  false exactly when \<open>offset + limit \<ge> total\<close>. An offset at or beyond the total is not
  an error: without a search term the query returns the empty page with \<open>hasMore = false\<close>;
  with a search term a query always returns, and the page is empty with \<open>hasMore = false\<close>
  when the offset is at or beyond the number of matches.
\<close>

theorem has_more:
  "(\<forall>r. getCustomers now store q = Inr r
        \<longrightarrow> (\<not> hasMore r \<longleftrightarrow> offset q + limit q \<ge> total_r r))
   \<and> (search q = [] \<and> 0 < limit q \<and> VIRTUAL_TOTAL \<le> offset q
        \<longrightarrow> getCustomers now store q
              = Inr \<lparr> data = [], total_r = VIRTUAL_TOTAL, hasMore = False \<rparr>)
   \<and> (search q \<noteq> []
        \<longrightarrow> (\<exists>r. getCustomers now store q = Inr r
                 \<and> (0 < limit q \<and> total_r r \<le> offset q \<longrightarrow> data r = [] \<and> \<not> hasMore r)))"
proof (intro conjI allI impI)
  fix r
  assume r: "getCustomers now store q = Inr r"
  show "(\<not> hasMore r) = (total_r r \<le> offset q + limit q)"
  proof (cases "search q = []")
    case True
    with r show ?thesis
      by (auto simp: getCustomers_no_search split: sum.splits if_splits)
  next
    case False
    with r search_result [OF False, of now store] show ?thesis
      by auto
  qed
next
  assume a: "search q = [] \<and> 0 < limit q \<and> VIRTUAL_TOTAL \<le> offset q"
  then have "window now store q = []"
    by (simp add: window_beyond_total)
  with a show "getCustomers now store q
                 = Inr \<lparr> data = [], total_r = VIRTUAL_TOTAL, hasMore = False \<rparr>"
    by (simp add: getCustomers_no_search)
next
  assume "search q \<noteq> []"
  from search_result [OF this, of now store]
  obtain srt where s: "getCustomers now store q =
            Inr \<lparr> data = js_slice srt (offset q) (offset q + limit q),
                  total_r = int (length srt),
                  hasMore = (int (length srt) > offset q + limit q) \<rparr>"
    by blast
  have "0 < limit q \<and> int (length srt) \<le> offset q
          \<longrightarrow> js_slice srt (offset q) (offset q + limit q) = []"
    by (auto simp: js_slice_nonneg)
  with s show "\<exists>r. getCustomers now store q = Inr r
                 \<and> (0 < limit q \<and> total_r r \<le> offset q \<longrightarrow> data r = [] \<and> \<not> hasMore r)"
    by auto
qed

theorem has_more_witness:
  "getCustomers 0 [] \<lparr> offset = 1000000, limit = 30, search = [], sortBy = SortName,
                       sortOrder = Desc \<rparr>
     = Inr \<lparr> data = [], total_r = VIRTUAL_TOTAL, hasMore = False \<rparr>
   \<and> (\<exists>r. getCustomers 0 [] \<lparr> offset = 0, limit = 30, search = ''smith'', sortBy = SortId,
                               sortOrder = Asc \<rparr> = Inr r
          \<and> data r = [] \<and> \<not> hasMore r)"
proof -
  let ?q1 = "\<lparr> offset = 1000000, limit = 30, search = [], sortBy = SortName,
                sortOrder = Desc \<rparr>"
  let ?q2 = "\<lparr> offset = 0, limit = 30, search = ''smith'', sortBy = SortId,
                sortOrder = Asc \<rparr>"
  from has_more [of 0 "[]" ?q1]
  have 1: "getCustomers 0 [] ?q1 = Inr \<lparr> data = [], total_r = VIRTUAL_TOTAL, hasMore = False \<rparr>"
    by (simp add: VIRTUAL_TOTAL_def)
  from has_more [of 0 "[]" ?q2]
  obtain r where "getCustomers 0 [] ?q2 = Inr r"
    and "0 < limit ?q2 \<and> total_r r \<le> offset ?q2 \<longrightarrow> data r = [] \<and> \<not> hasMore r"
    by auto
  moreover from this(1) have "total_r r = 0"
    by (auto simp: getCustomers_def)
  ultimately have "\<exists>r. getCustomers 0 [] ?q2 = Inr r \<and> data r = [] \<and> \<not> hasMore r"
    by auto
  with 1 show ?thesis by simp
qed

section \<open>Pages of the query engine\<close>

subsection \<open>Paging by id\<close>

lemma no_search_by_id_page:
  assumes "search q = []" and "sortBy q = SortId" and "0 \<le> offset q"
  shows "getCustomers now store q =
           Inr \<lparr> data =
                   take (nat (min (offset q + limit q) VIRTUAL_TOTAL) - nat (offset q))
                     (drop (nat (offset q)) store)
                   @ map (\<lambda>k. generateVirtualCustomer now (k + 1))
                       [max (max (nat (offset q)) (length store)) (nat ACTUAL_STORED)
                        ..<nat (min (offset q + limit q) VIRTUAL_TOTAL)],
                 total_r = VIRTUAL_TOTAL,
                 hasMore = (offset q + limit q < VIRTUAL_TOTAL) \<rparr>"
  by (simp only: getCustomers_by_id [OF assms(1,2)] present_window [OF assms(3)])

lemma length_generateCustomers: "length (generateCustomers now n) = n"
  by (simp add: generateCustomers_def)

text \<open>
  Claim C1, as stated, fails on a store that is not filled up to \<open>K\<close>: when only the first
  batch (the ids \<open>1..1000\<close>) has been written, the window \<open>[1000, 1030)\<close> yields an empty
  page, not the 30 records the claim promises. The placeholders of the ids \<open>1001..1030\<close>
  are dropped, not synthesized.
\<close>

theorem unfilled_store_page:
  "getCustomers 0 (generateCustomers 0 1000)
     \<lparr> offset = 1000, limit = 30, search = [], sortBy = SortId, sortOrder = Asc \<rparr>
     = Inr \<lparr> data = [], total_r = 1000000, hasMore = True \<rparr>"
  by (simp add: no_search_by_id_page length_generateCustomers VIRTUAL_TOTAL_def
      ACTUAL_STORED_def)

lemma filled_page:
  fixes a b K :: nat and f :: "nat \<Rightarrow> 'a" and st :: "'a list"
  assumes "min b K \<le> length st"
  defines "page \<equiv> take (b - a) (drop a st) @ map f [max (max a (length st)) K..<b]"
  shows "length page = b - a"
    and "\<forall>j < b - a. page ! j = (if a + j < length st then st ! (a + j) else f (a + j))"
proof -
  have "length page = min (length st - a) (b - a) + (b - max (max a (length st)) K)"
    by (simp add: page_def)
  then show "length page = b - a"
    using assms(1) by arith
  show "\<forall>j < b - a. page ! j = (if a + j < length st then st ! (a + j) else f (a + j))"
  proof (intro allI impI)
    fix j
    assume j: "j < b - a"
    show "page ! j = (if a + j < length st then st ! (a + j) else f (a + j))"
    proof (cases "a + j < length st")
      case True
      with j have "j < length (take (b - a) (drop a st))" by simp
      then have "page ! j = take (b - a) (drop a st) ! j"
        by (simp add: page_def nth_append)
      with True j show ?thesis by simp
    next
      case False
      with j assms(1) have K: "K \<le> length st" by arith
      from False j have l: "length (take (b - a) (drop a st)) = length st - a"
        by simp
      from K have m: "max (max a (length st)) K = max a (length st)" by simp
      from False have n: "\<not> j < length st - a" by arith
      from False j have i: "j - (length st - a) < length [max a (length st)..<b]"
        by (simp add: max_def) arith
      have "page ! j = map f [max a (length st)..<b] ! (j - (length st - a))"
        unfolding page_def m nth_append l using n by simp
      also have "\<dots> = f ([max a (length st)..<b] ! (j - (length st - a)))"
        using i by (rule nth_map)
      also have "[max a (length st)..<b] ! (j - (length st - a))
                   = max a (length st) + (j - (length st - a))"
        using i by (intro nth_upt) simp
      also have "\<dots> = a + j"
        using False by arith
      finally show ?thesis using False by simp
    qed
  qed
qed

lemma cid_generateVirtualCustomer: "cid (generateVirtualCustomer now i) = i"
  by (simp add: generateVirtualCustomer_def Let_def)

lemma nth_generateCustomers:
  "p < n \<Longrightarrow> generateCustomers now n ! p = generateCustomer now (p + 1)"
  unfolding generateCustomers_def by (subst nth_map) (simp_all add: nth_upt del: upt_Suc)

lemma cid_generateCustomers: "p < n \<Longrightarrow> cid (generateCustomers now n ! p) = p + 1"
  by (simp add: nth_generateCustomers generateCustomer_def Let_def)

text \<open>
  Claim C1, amended. For a query with an empty search term, \<open>sortField = id\<close> and
  \<open>0 \<le> offset\<close>, the total is \<open>N = 1000000\<close> and the page lists, in order of the window
  indices \<open>i\<close> in \<open>[offset, min(offset + limit, N))\<close>: the record at cursor position \<open>i\<close> of
  the store while the store holds more than \<open>i\<close> records, and then, for the indices
  \<open>i \<ge> K\<close>, the virtual customer for the id \<open>i + 1\<close>. An index below \<open>K\<close> that the store
  does not fill contributes no entry. When the store holds the ids \<open>1, 2, ...\<close> in order and
  at least \<open>min(offset + limit, K)\<close> of them, the page has exactly
  \<open>max(0, min(limit, N - offset))\<close> entries and its \<open>j\<close>-th entry is the record with the id
  \<open>offset + j + 1\<close>: the persisted one, or the virtual one beyond the store.
\<close>

theorem no_search_by_id:
  assumes "search q = []" and "sortBy q = SortId" and "0 \<le> offset q"
  shows
    "let a = nat (offset q);
         b = nat (min (offset q + limit q) VIRTUAL_TOTAL);
         page = take (b - a) (drop a store)
                @ map (\<lambda>k. generateVirtualCustomer now (k + 1))
                    [max (max a (length store)) (nat ACTUAL_STORED)..<b]
     in getCustomers now store q
          = Inr \<lparr> data = page, total_r = VIRTUAL_TOTAL,
                  hasMore = (offset q + limit q < VIRTUAL_TOTAL) \<rparr>
        \<and> ((\<forall>p < length store. cid (store ! p) = p + 1)
             \<and> min (offset q + limit q) ACTUAL_STORED \<le> int (length store)
           \<longrightarrow> int (length page) = max 0 (min (limit q) (VIRTUAL_TOTAL - offset q))
               \<and> (\<forall>j < length page.
                     cid (page ! j) = a + j + 1
                     \<and> page ! j = (if a + j < length store then store ! (a + j)
                                   else generateVirtualCustomer now (a + j + 1))))"
proof -
  define a where "a = nat (offset q)"
  define b where "b = nat (min (offset q + limit q) VIRTUAL_TOTAL)"
  define page where "page = take (b - a) (drop a store)
                @ map (\<lambda>k. generateVirtualCustomer now (k + 1))
                    [max (max a (length store)) (nat ACTUAL_STORED)..<b]"
  have 1: "getCustomers now store q
          = Inr \<lparr> data = page, total_r = VIRTUAL_TOTAL,
                  hasMore = (offset q + limit q < VIRTUAL_TOTAL) \<rparr>"
    unfolding page_def a_def b_def using assms by (rule no_search_by_id_page)
  have 2: "int (length page) = max 0 (min (limit q) (VIRTUAL_TOTAL - offset q))
               \<and> (\<forall>j < length page.
                     cid (page ! j) = a + j + 1
                     \<and> page ! j = (if a + j < length store then store ! (a + j)
                                   else generateVirtualCustomer now (a + j + 1)))"
    if c: "\<forall>p < length store. cid (store ! p) = p + 1"
      and f: "min (offset q + limit q) ACTUAL_STORED \<le> int (length store)"
  proof -
    have "0 \<le> ACTUAL_STORED" "ACTUAL_STORED \<le> VIRTUAL_TOTAL"
      by (simp_all add: ACTUAL_STORED_def VIRTUAL_TOTAL_def)
    with f assms(3) have m: "min b (nat ACTUAL_STORED) \<le> length store"
      unfolding b_def by arith
    note fp = filled_page [OF m, of a "\<lambda>k. generateVirtualCustomer now (k + 1)",
        folded page_def]
    have l: "length page = b - a" by (rule fp(1))
    have "int (b - a) = max 0 (min (limit q) (VIRTUAL_TOTAL - offset q))"
      unfolding a_def b_def using assms(3) by arith
    moreover have "cid (page ! j) = a + j + 1
                     \<and> page ! j = (if a + j < length store then store ! (a + j)
                                   else generateVirtualCustomer now (a + j + 1))"
      if "j < length page" for j
    proof -
      from that l fp(2)
      have e: "page ! j = (if a + j < length store then store ! (a + j)
                          else generateVirtualCustomer now (a + j + 1))"
        by simp
      then show ?thesis
        using c by (simp add: cid_generateVirtualCustomer)
    qed
    ultimately show ?thesis using l c by (simp add: cid_generateVirtualCustomer)
  qed
  from 1 2 show ?thesis
    unfolding Let_def a_def [symmetric] b_def [symmetric] page_def [symmetric] by blast
qed

theorem no_search_by_id_witness:
  "getCustomers 0 (generateCustomers 0 3)
     \<lparr> offset = 1, limit = 2, search = [], sortBy = SortId, sortOrder = Asc \<rparr>
     = Inr \<lparr> data = [generateCustomer 0 2, generateCustomer 0 3], total_r = VIRTUAL_TOTAL,
             hasMore = True \<rparr>
   \<and> cid (generateCustomer 0 2) = 2"
proof -
  let ?q = "\<lparr> offset = 1, limit = 2, search = [], sortBy = SortId, sortOrder = Asc \<rparr>"
  have "[1..<3 + 1] = [1, 2, 3::nat]"
    by (simp add: upt_rec)
  then have s: "generateCustomers 0 3 = [generateCustomer 0 1, generateCustomer 0 2, generateCustomer 0 3]"
    by (simp only: generateCustomers_def list.map)
  have c: "\<forall>p < length (generateCustomers 0 3). cid (generateCustomers 0 3 ! p) = p + 1"
    by (simp add: length_generateCustomers cid_generateCustomers)
  have v: "VIRTUAL_TOTAL = 1000000" "ACTUAL_STORED = 10000"
    by (simp_all add: VIRTUAL_TOTAL_def ACTUAL_STORED_def)
  from no_search_by_id [of ?q "generateCustomers 0 3" 0] c
  have "getCustomers 0 (generateCustomers 0 3) ?q
          = Inr \<lparr> data = [generateCustomer 0 2, generateCustomer 0 3], total_r = VIRTUAL_TOTAL,
                  hasMore = True \<rparr>"
    by (simp add: Let_def s v)
  then show ?thesis by (simp add: generateCustomer_def Let_def)
qed

subsection \<open>Beyond the persisted prefix\<close>

lemma name_virtual_10001: "name (generateVirtualCustomer 0 10001) = ''Mary Williams''"
  by (simp add: generateVirtualCustomer_def Let_def virtualFirstNames_def virtualLastNames_def)

lemma name_generated_10001: "name (generateCustomer 0 10001) = ''Sarah Hall''"
  by (simp add: generateCustomer_def Let_def firstNames_def lastNames_def)

text \<open>
  Claim C2, as stated, fails: on a store holding the generated records of the ids
  \<open>1..10000\<close>, the record the no-search query returns for the id 10001 is named
  \<open>Mary Williams\<close>, while \<open>generateCustomer(10001)\<close> is named \<open>Sarah Hall\<close> at the same
  reference time.
\<close>

theorem virtual_differs_from_generated:
  "getCustomers 0 (generateCustomers 0 10000)
     \<lparr> offset = 10000, limit = 1, search = [], sortBy = SortId, sortOrder = Asc \<rparr>
     = Inr \<lparr> data = [generateVirtualCustomer 0 10001], total_r = 1000000, hasMore = True \<rparr>
   \<and> name (generateVirtualCustomer 0 10001) = ''Mary Williams''
   \<and> name (generateCustomer 0 10001) = ''Sarah Hall''"
proof -
  have "[10000..<10001] = [10000::nat]"
    by (simp add: upt_rec)
  then show ?thesis
    by (simp add: no_search_by_id_page length_generateCustomers VIRTUAL_TOTAL_def
        ACTUAL_STORED_def name_virtual_10001 name_generated_10001)
qed

text \<open>
  Claim C2, amended. For a store of at most \<open>K\<close> records and an offset at or beyond \<open>K\<close>,
  the no-search query by id returns, for every id of the window, the record
  \<open>generateVirtualCustomer(id)\<close>. At the same reference time it agrees with
  \<open>generateCustomer(id)\<close> on \<open>id\<close>, \<open>phone\<close>, \<open>score\<close>, \<open>lastMessageAt\<close> and \<open>avatar\<close>;
  \<open>name\<close>, \<open>email\<close> and \<open>addedBy\<close> are drawn from its own, shorter tables.
\<close>

theorem beyond_prefix_virtual:
  assumes "search q = []" and "sortBy q = SortId"
    and "ACTUAL_STORED \<le> offset q" and "int (length store) \<le> ACTUAL_STORED"
  shows "getCustomers now store q
           = Inr \<lparr> data = map (\<lambda>k. generateVirtualCustomer now (k + 1))
                            [nat (offset q)..<nat (min (offset q + limit q) VIRTUAL_TOTAL)],
                   total_r = VIRTUAL_TOTAL,
                   hasMore = (offset q + limit q < VIRTUAL_TOTAL) \<rparr>
         \<and> generateVirtualCustomer now i
             = (generateCustomer now i)
                 \<lparr> name := name (generateVirtualCustomer now i),
                   email := email (generateVirtualCustomer now i),
                   addedBy := addedBy (generateVirtualCustomer now i) \<rparr>"
proof
  have k: "0 \<le> ACTUAL_STORED" by (simp add: ACTUAL_STORED_def)
  with assms(3) have o: "0 \<le> offset q" by simp
  from assms(3,4) k have "max (max (nat (offset q)) (length store)) (nat ACTUAL_STORED) = nat (offset q)"
    by arith
  moreover from assms(3,4) have "drop (nat (offset q)) store = []"
    by simp
  ultimately show "getCustomers now store q
           = Inr \<lparr> data = map (\<lambda>k. generateVirtualCustomer now (k + 1))
                            [nat (offset q)..<nat (min (offset q + limit q) VIRTUAL_TOTAL)],
                   total_r = VIRTUAL_TOTAL,
                   hasMore = (offset q + limit q < VIRTUAL_TOTAL) \<rparr>"
    by (simp add: no_search_by_id_page [OF assms(1,2) o])
next
  show "generateVirtualCustomer now i
             = (generateCustomer now i)
                 \<lparr> name := name (generateVirtualCustomer now i),
                   email := email (generateVirtualCustomer now i),
                   addedBy := addedBy (generateVirtualCustomer now i) \<rparr>"
    by (simp add: generateVirtualCustomer_def generateCustomer_def Let_def)
qed

theorem beyond_prefix_virtual_witness:
  "getCustomers 0 (generateCustomers 0 10000)
     \<lparr> offset = 50000, limit = 2, search = [], sortBy = SortId, sortOrder = Asc \<rparr>
     = Inr \<lparr> data = [generateVirtualCustomer 0 50001, generateVirtualCustomer 0 50002],
             total_r = VIRTUAL_TOTAL, hasMore = True \<rparr>
   \<and> phone (generateVirtualCustomer 0 50001) = phone (generateCustomer 0 50001)"
proof -
  let ?q = "\<lparr> offset = 50000, limit = 2, search = [], sortBy = SortId, sortOrder = Asc \<rparr>"
  have u: "[50000..<50002] = [50000, 50001::nat]"
    by (simp add: upt_rec)
  have v: "VIRTUAL_TOTAL = 1000000" "ACTUAL_STORED = 10000"
    by (simp_all add: VIRTUAL_TOTAL_def ACTUAL_STORED_def)
  from beyond_prefix_virtual [of ?q "generateCustomers 0 10000" 0 50001]
  have "getCustomers 0 (generateCustomers 0 10000) ?q
     = Inr \<lparr> data = [generateVirtualCustomer 0 50001, generateVirtualCustomer 0 50002],
             total_r = VIRTUAL_TOTAL, hasMore = True \<rparr>"
    by (simp add: length_generateCustomers v u)
  moreover have "phone (generateVirtualCustomer 0 50001) = phone (generateCustomer 0 50001)"
    by (simp add: generateVirtualCustomer_def generateCustomer_def Let_def)
  ultimately show ?thesis by simp
qed

subsection \<open>Sorting the window\<close>

lemma window_no_placeholder:
  assumes "0 \<le> offset q"
    and "min (offset q + limit q) ACTUAL_STORED \<le> int (length store)"
  shows "None \<notin> set (window now store q)"
proof -
  define a where "a = nat (offset q)"
  define b where "b = nat (min (offset q + limit q) VIRTUAL_TOTAL)"
  have k: "ACTUAL_STORED \<le> VIRTUAL_TOTAL"
    by (simp add: ACTUAL_STORED_def VIRTUAL_TOTAL_def)
  have "placeholder now i \<noteq> None"
    if "a + min (length store - a) (b - a) \<le> i" and "i < b" for i
  proof -
    from that assms k have "ACTUAL_STORED \<le> int i"
      unfolding a_def b_def by arith
    then show ?thesis by (simp add: placeholder_def)
  qed
  then show ?thesis
    unfolding window_eq [OF assms(1)] a_def b_def by (fastforce simp: image_iff)
qed

text \<open>
  What the sort of the window achieves where it completes: every page a no-search query
  with \<open>sortField \<noteq> id\<close> returns is a permutation of the page the same window yields for
  \<open>sortField = id\<close>, ordered by the sort field in the sort direction; and the query does
  return when the store fills every placeholder of the window.
\<close>

lemma no_search_sorted_page:
  assumes "search q = []" and "sortBy q \<noteq> SortId" and "0 \<le> offset q"
  shows "(min (offset q + limit q) ACTUAL_STORED \<le> int (length store)
            \<longrightarrow> (\<exists>r. getCustomers now store q = Inr r))
       \<and> (\<forall>r. getCustomers now store q = Inr r
            \<longrightarrow> (\<exists>w. getCustomers now store (q\<lparr> sortBy := SortId \<rparr>) = Inr w
                     \<and> mset (data r) = mset (data w)
                     \<and> sorted_wrt (before (sortBy q) (sortOrder q)) (data r)
                     \<and> total_r r = total_r w \<and> hasMore r = hasMore w))"
proof (intro conjI allI impI)
  assume "min (offset q + limit q) ACTUAL_STORED \<le> int (length store)"
  with assms(3) have "None \<notin> set (window now store q)"
    by (rule window_no_placeholder)
  then obtain srt where
    "array_sort (compareNullable (sortBy q) (sortOrder q)) (window now store q) = Inr srt"
    using array_sort_nullable_returns by blast
  with assms(1,2) show "\<exists>r. getCustomers now store q = Inr r"
    by (simp add: getCustomers_no_search)
next
  fix r
  assume r: "getCustomers now store q = Inr r"
  with assms(1,2) obtain srt where
    s: "array_sort (compareNullable (sortBy q) (sortOrder q)) (window now store q) = Inr srt"
    and d: "r = \<lparr> data = map the (filter (\<lambda>r. r \<noteq> None) srt), total_r = VIRTUAL_TOTAL,
                  hasMore = (offset q + limit q < VIRTUAL_TOTAL) \<rparr>"
    by (auto simp: getCustomers_no_search split: sum.splits)
  have w: "window now store (q\<lparr> sortBy := SortId \<rparr>) = window now store q"
    by (simp add: window_def)
  let ?w = "\<lparr> data = map the (filter (\<lambda>r. r \<noteq> None) (window now store q)),
              total_r = VIRTUAL_TOTAL, hasMore = (offset q + limit q < VIRTUAL_TOTAL) \<rparr>"
  have 1: "getCustomers now store (q\<lparr> sortBy := SortId \<rparr>) = Inr ?w"
    using assms(1) by (simp add: getCustomers_by_id w)
  from array_sort_nullable(1) [OF s]
  have "mset (map the (filter (\<lambda>r. r \<noteq> None) srt))
          = mset (map the (filter (\<lambda>r. r \<noteq> None) (window now store q)))"
    by (metis mset_filter mset_map)
  then have 2: "mset (data r) = mset (data ?w)"
    by (simp add: d)
  have 3: "sorted_wrt (before (sortBy q) (sortOrder q)) (data r)"
    using array_sort_nullable(2) [OF s] by (simp add: d)
  from 1 2 3 d
  show "\<exists>w. getCustomers now store (q\<lparr> sortBy := SortId \<rparr>) = Inr w
             \<and> mset (data r) = mset (data w)
             \<and> sorted_wrt (before (sortBy q) (sortOrder q)) (data r)
             \<and> total_r r = total_r w \<and> hasMore r = hasMore w"
    by (intro exI [of _ ?w]) simp
qed

subsection \<open>Letter case of the search term\<close>

lemma lowerChar_lower: "\<forall>l \<in> set ''abcdefghijklmnopqrstuvwxyz''. lowerChar l = l"
  by (simp add: lowerChar_def)

lemma lowerChar_idem: "lowerChar (lowerChar c) = lowerChar c"
proof -
  consider "lowerChar c = c" | "lowerChar c \<in> set ''abcdefghijklmnopqrstuvwxyz''"
    using lowerChar_cases by blast
  then show ?thesis
  proof cases
    case 1
    then show ?thesis by (simp only:)
  next
    case 2
    with lowerChar_lower show ?thesis by blast
  qed
qed

lemma toLowerCase_idem: "toLowerCase (toLowerCase t) = toLowerCase t"
  by (simp add: toLowerCase_def lowerChar_idem)

lemma phoneChar_iff: "phoneChar ch \<longleftrightarrow> ch \<in> set ''+0123456789''"
  by (simp add: phoneChar_def isDigit_def)

lemma lower_not_phoneChar: "\<forall>l \<in> set ''abcdefghijklmnopqrstuvwxyz''. \<not> phoneChar l"
  by (simp add: phoneChar_def isDigit_def)

lemma phoneChar_fixed: "\<forall>ch \<in> set ''+0123456789''. lowerChar ch = ch"
  by (simp add: lowerChar_def)

lemma lowerChar_phoneChar: "phoneChar (lowerChar ch) \<Longrightarrow> lowerChar ch = ch"
  using lowerChar_cases [of ch] lower_not_phoneChar by blast

lemma phoneChar_lowerChar: "phoneChar ch \<Longrightarrow> lowerChar ch = ch"
  using phoneChar_fixed unfolding phoneChar_iff by blast

lemma str_includes_set: "str_includes s t \<Longrightarrow> set t \<subseteq> set s"
  by (auto simp: str_includes_sublist dest: set_mono_sublist)

lemma phone_includes_lower:
  assumes "\<forall>ch \<in> set p. phoneChar ch"
  shows "str_includes p (toLowerCase t) = str_includes p t"
proof -
  have "toLowerCase t = t" if "str_includes p t"
  proof -
    from that have "set t \<subseteq> set p" by (rule str_includes_set)
    with assms have "\<forall>ch \<in> set t. lowerChar ch = ch"
      by (auto intro: phoneChar_lowerChar)
    then show ?thesis
      by (simp add: toLowerCase_def map_idI)
  qed
  moreover have "toLowerCase t = t" if "str_includes p (toLowerCase t)"
  proof -
    from that have "set (toLowerCase t) \<subseteq> set p" by (rule str_includes_set)
    with assms have "\<forall>ch \<in> set t. lowerChar ch = ch"
      by (auto simp: toLowerCase_def intro!: lowerChar_phoneChar)
    then show ?thesis
      by (simp add: toLowerCase_def map_idI)
  qed
  ultimately show ?thesis by auto
qed

lemma matches_lower:
  "\<forall>ch \<in> set (phone c). phoneChar ch \<Longrightarrow> matches (toLowerCase t) c = matches t c"
  by (simp add: matches_def Let_def toLowerCase_idem phone_includes_lower)

text \<open>
  Claim C10. On a store whose phone numbers consist of \<open>+\<close> and digits only, a query
  returns the same result (page, total, \<open>hasMore\<close>, or failure) when the letters of its
  search term are replaced by lower-case ones.
\<close>

theorem search_case_insensitive:
  assumes "\<forall>c \<in> set store. \<forall>ch \<in> set (phone c). phoneChar ch"
  shows "getCustomers now store (q\<lparr> search := toLowerCase (search q) \<rparr>)
           = getCustomers now store q"
proof (cases "search q = []")
  case True
  then have "q\<lparr> search := toLowerCase (search q) \<rparr> = q"
    by (simp add: toLowerCase_def)
  then show ?thesis by simp
next
  case False
  then have n: "toLowerCase (search q) \<noteq> []"
    by (simp add: toLowerCase_def)
  define q' where "q' = q\<lparr> search := toLowerCase (search q) \<rparr>"
  have f: "offset q' = offset q" "limit q' = limit q" "sortBy q' = sortBy q"
    "sortOrder q' = sortOrder q" "search q' = toLowerCase (search q)"
    by (simp_all add: q'_def)
  have m: "filter (matches (toLowerCase (search q))) store = filter (matches (search q)) store"
    using assms by (intro filter_cong) (simp_all add: matches_lower)
  have "getCustomers now store q' = getCustomers now store q"
    unfolding getCustomers_def f m using False n by (simp only: if_False)
  then show ?thesis by (simp only: q'_def)
qed

lemma phone_generateCustomer: "\<forall>ch \<in> set (phone (generateCustomer now i)). phoneChar ch"
proof -
  have "phone (generateCustomer now i)
          = CHR ''+'' # CHR ''1'' # replicate (10 - length (String_of i)) (CHR ''0'') @ String_of i"
    by (simp add: generateCustomer_def Let_def padStart_def)
  moreover have "isDigit (CHR ''1'')" "isDigit (CHR ''0'')"
    by (simp_all add: isDigit_def)
  ultimately show ?thesis
    using String_of_digits [of _ i] by (auto simp: phoneChar_def)
qed

lemma phone_generateCustomers:
  "\<forall>c \<in> set (generateCustomers now n). \<forall>ch \<in> set (phone c). phoneChar ch"
proof
  fix c
  assume "c \<in> set (generateCustomers now n)"
  then obtain i where "c = generateCustomer now i"
    unfolding generateCustomers_def set_map by blast
  then show "\<forall>ch \<in> set (phone c). phoneChar ch"
    using phone_generateCustomer by blast
qed

theorem search_case_insensitive_witness:
  "getCustomers 0 (generateCustomers 0 3)
     \<lparr> offset = 0, limit = 10, search = ''john'', sortBy = SortId, sortOrder = Asc \<rparr>
   = getCustomers 0 (generateCustomers 0 3)
     \<lparr> offset = 0, limit = 10, search = ''JOHN'', sortBy = SortId, sortOrder = Asc \<rparr>"
proof -
  have "toLowerCase ''JOHN'' = ''john''"
    by (simp add: toLowerCase_def lowerChar_def)
  with search_case_insensitive [OF phone_generateCustomers [of 0 3], of 0
      "\<lparr> offset = 0, limit = 10, search = ''JOHN'', sortBy = SortId, sortOrder = Asc \<rparr>"]
  show ?thesis by simp
qed

subsection \<open>Searching the store\<close>

lemma matches_sublist:
  "matches t c \<longleftrightarrow>
     sublist (toLowerCase t) (toLowerCase (name c))
     \<or> sublist (toLowerCase t) (toLowerCase (email c))
     \<or> sublist t (phone c)"
  by (simp add: matches_def Let_def str_includes_sublist)

lemma matches_rule: "matches t = matchesRule t"
  by (rule ext) (simp add: matches_sublist matchesRule_def)

text \<open>
  Claim C4. For a query with a non-empty search term, \<open>0 \<le> offset\<close> and \<open>0 < limit\<close>:
  the query returns; the page is the slice \<open>[offset, offset + limit)\<close> of a list that is a
  permutation of all records of the store that match by the rule (the lower-cased name or
  email contains the lower-cased term, or the phone contains the term itself) and that is
  ordered by the sort field in the sort direction; the total is the number of records of
  the store that match by the rule; every record of the page is a record of the store that
  matches by the rule; so no id above \<open>K\<close> appears when the store holds none.
\<close>

theorem search_page:
  assumes "search q \<noteq> []" and "0 \<le> offset q" and "0 < limit q"
  shows
    "\<exists>srt. getCustomers now store q
              = Inr \<lparr> data = take (nat (limit q)) (drop (nat (offset q)) srt),
                      total_r = int (length (filter (matchesRule (search q)) store)),
                      hasMore = (offset q + limit q
                                   < int (length (filter (matchesRule (search q)) store))) \<rparr>
           \<and> mset srt = mset (filter (matchesRule (search q)) store)
           \<and> sorted_wrt (before (sortBy q) (sortOrder q)) srt
           \<and> (\<forall>c \<in> set (take (nat (limit q)) (drop (nat (offset q)) srt)).
                 c \<in> set store \<and> matchesRule (search q) c)
           \<and> ((\<forall>c \<in> set store. int (cid c) \<le> ACTUAL_STORED)
                \<longrightarrow> (\<forall>c \<in> set (take (nat (limit q)) (drop (nat (offset q)) srt)).
                       int (cid c) \<le> ACTUAL_STORED))"
proof -
  from search_result [OF assms(1), of now store]
  obtain srt where g: "getCustomers now store q =
            Inr \<lparr> data = js_slice srt (offset q) (offset q + limit q),
                  total_r = int (length srt),
                  hasMore = (int (length srt) > offset q + limit q) \<rparr>"
    and m0: "mset srt = mset (filter (matches (search q)) store)"
    and s: "sorted_wrt (before (sortBy q) (sortOrder q)) srt"
    by blast
  from m0 have m: "mset srt = mset (filter (matchesRule (search q)) store)"
    by (simp only: matches_rule)
  from m have l: "length srt = length (filter (matchesRule (search q)) store)"
    by (rule mset_eq_length)
  from m have e: "set srt = set (filter (matchesRule (search q)) store)"
    by (rule mset_eq_setD)
  have p: "set (take (nat (limit q)) (drop (nat (offset q)) srt)) \<subseteq> set srt"
    by (meson set_take_subset set_drop_subset subset_trans)
  have j: "js_slice srt (offset q) (offset q + limit q)
             = take (nat (limit q)) (drop (nat (offset q)) srt)"
    using assms(2,3) by (simp add: js_slice_nonneg)
  have 1: "getCustomers now store q
              = Inr \<lparr> data = take (nat (limit q)) (drop (nat (offset q)) srt),
                      total_r = int (length (filter (matchesRule (search q)) store)),
                      hasMore = (offset q + limit q
                                   < int (length (filter (matchesRule (search q)) store))) \<rparr>"
    using g by (simp only: j l)
  have 2: "\<forall>c \<in> set (take (nat (limit q)) (drop (nat (offset q)) srt)).
                 c \<in> set store \<and> matchesRule (search q) c"
    using p e by auto
  then have 3: "(\<forall>c \<in> set store. int (cid c) \<le> ACTUAL_STORED)
                \<longrightarrow> (\<forall>c \<in> set (take (nat (limit q)) (drop (nat (offset q)) srt)).
                       int (cid c) \<le> ACTUAL_STORED)"
    by blast
  from 1 m s 2 3 show ?thesis by blast
qed

lemma generateCustomers_3:
  "generateCustomers now 3
     = [generateCustomer now 1, generateCustomer now 2, generateCustomer now 3]"
proof -
  have "[1..<3 + 1] = [1, 2, 3::nat]"
    by (simp add: upt_rec)
  then show ?thesis
    by (simp only: generateCustomers_def list.map)
qed

lemma replicate_9: "replicate 9 c = [c, c, c, c, c, c, c, c, c]"
  by (simp add: eval_nat_numeral)

lemma generated_1: "generateCustomer 0 1 =
  \<lparr> cid = 1, name = ''Mary Smith'', phone = ''+10000000001'', email = ''mary.smith1@yahoo.com'',
    score = 7, lastMessageAt = - 86400000, addedBy = ''Agent Smith'',
    avatar = ''https://api.dicebear.com/7.x/avataaars/svg?seed=1'' \<rparr>"
  by (simp add: generateCustomer_def Let_def firstNames_def lastNames_def domains_def agents_def
      toLowerCase_def lowerChar_def String_of_small digitChar_def padStart_def replicate_9)

lemma generated_2: "generateCustomer 0 2 =
  \<lparr> cid = 2, name = ''John Smith'', phone = ''+10000000002'', email = ''john.smith2@outlook.com'',
    score = 14, lastMessageAt = - 172800000, addedBy = ''Agent Jones'',
    avatar = ''https://api.dicebear.com/7.x/avataaars/svg?seed=2'' \<rparr>"
  by (simp add: generateCustomer_def Let_def firstNames_def lastNames_def domains_def agents_def
      toLowerCase_def lowerChar_def String_of_small digitChar_def padStart_def replicate_9)

lemma generated_3: "generateCustomer 0 3 =
  \<lparr> cid = 3, name = ''Patricia Smith'', phone = ''+10000000003'',
    email = ''patricia.smith3@hotmail.com'',
    score = 21, lastMessageAt = - 259200000, addedBy = ''Agent Brown'',
    avatar = ''https://api.dicebear.com/7.x/avataaars/svg?seed=3'' \<rparr>"
  by (simp add: generateCustomer_def Let_def firstNames_def lastNames_def domains_def agents_def
      toLowerCase_def lowerChar_def String_of_small digitChar_def padStart_def replicate_9)

lemma matches_outlook:
  "filter (matches ''OUTLOOK'') (generateCustomers 0 3) = [generateCustomer 0 2]"
  unfolding generateCustomers_3 generated_1 generated_2 generated_3
  by (simp add: matches_def Let_def toLowerCase_def lowerChar_def)

theorem search_page_witness:
  "getCustomers 0 (generateCustomers 0 3)
     \<lparr> offset = 0, limit = 10, search = ''OUTLOOK'', sortBy = SortId, sortOrder = Asc \<rparr>
     = Inr \<lparr> data = [generateCustomer 0 2], total_r = 1, hasMore = False \<rparr>
   \<and> email (generateCustomer 0 2) = ''john.smith2@outlook.com''"
proof -
  let ?q = "\<lparr> offset = 0, limit = 10, search = ''OUTLOOK'', sortBy = SortId, sortOrder = Asc \<rparr>"
  from search_page [of ?q 0 "generateCustomers 0 3"]
  obtain srt where "getCustomers 0 (generateCustomers 0 3) ?q
              = Inr \<lparr> data = take 10 srt, total_r = 1, hasMore = False \<rparr>"
    and "mset srt = mset [generateCustomer 0 2]"
    by (auto simp: matches_rule [symmetric] matches_outlook)
  then show ?thesis
    by (simp add: generated_2)
qed

subsection \<open>Sorted windows, evaluated\<close>

lemma sorted_by_score_desc:
  "getCustomers 0 (generateCustomers 0 3)
     \<lparr> offset = 0, limit = 3, search = [], sortBy = SortScore, sortOrder = Desc \<rparr>
     = Inr \<lparr> data = [generateCustomer 0 3, generateCustomer 0 2, generateCustomer 0 1],
             total_r = VIRTUAL_TOTAL, hasMore = True \<rparr>"
proof -
  let ?q = "\<lparr> offset = 0, limit = 3, search = [], sortBy = SortScore, sortOrder = Desc \<rparr>"
  have v: "VIRTUAL_TOTAL = 1000000"
    by (simp add: VIRTUAL_TOTAL_def)
  have "window 0 (generateCustomers 0 3) ?q
          = [Some (generateCustomer 0 1), Some (generateCustomer 0 2), Some (generateCustomer 0 3)]"
    by (simp add: window_eq v generateCustomers_3)
  moreover have "array_sort (compareNullable SortScore Desc)
          [Some (generateCustomer 0 1), Some (generateCustomer 0 2), Some (generateCustomer 0 3)]
        = Inr [Some (generateCustomer 0 3), Some (generateCustomer 0 2), Some (generateCustomer 0 1)]"
    unfolding generated_1 generated_2 generated_3
    by (simp add: compareNullable_def compareFn_def)
  ultimately show ?thesis
    by (simp add: getCustomers_no_search v)
qed

lemma sorted_by_score_desc_page:
  "getCustomers 0 (generateCustomers 0 3)
     \<lparr> offset = 0, limit = 3, search = [], sortBy = SortScore, sortOrder = Desc \<rparr>
     = Inr \<lparr> data = [generateCustomer 0 3, generateCustomer 0 2, generateCustomer 0 1],
             total_r = VIRTUAL_TOTAL, hasMore = True \<rparr>
   \<and> sorted_wrt (before SortScore Desc)
       [generateCustomer 0 3, generateCustomer 0 2, generateCustomer 0 1]
   \<and> (\<exists>w. getCustomers 0 (generateCustomers 0 3)
              \<lparr> offset = 0, limit = 3, search = [], sortBy = SortId, sortOrder = Desc \<rparr> = Inr w
          \<and> mset [generateCustomer 0 3, generateCustomer 0 2, generateCustomer 0 1]
              = mset (data w))"
proof -
  let ?q = "\<lparr> offset = 0, limit = 3, search = [], sortBy = SortScore, sortOrder = Desc \<rparr>"
  let ?r = "\<lparr> data = [generateCustomer 0 3, generateCustomer 0 2, generateCustomer 0 1],
             total_r = VIRTUAL_TOTAL, hasMore = True \<rparr>"
  have "search ?q = []" "sortBy ?q \<noteq> SortId" "0 \<le> offset ?q"
    by simp_all
  from no_search_sorted_page [OF this, of "generateCustomers 0 3" 0]
  have "\<forall>r. getCustomers 0 (generateCustomers 0 3) ?q = Inr r
            \<longrightarrow> (\<exists>w. getCustomers 0 (generateCustomers 0 3) (?q\<lparr> sortBy := SortId \<rparr>) = Inr w
                     \<and> mset (data r) = mset (data w)
                     \<and> sorted_wrt (before (sortBy ?q) (sortOrder ?q)) (data r)
                     \<and> total_r r = total_r w \<and> hasMore r = hasMore w)"
    by blast
  with sorted_by_score_desc
  have "\<exists>w. getCustomers 0 (generateCustomers 0 3) (?q\<lparr> sortBy := SortId \<rparr>) = Inr w
                     \<and> mset (data ?r) = mset (data w)
                     \<and> sorted_wrt (before (sortBy ?q) (sortOrder ?q)) (data ?r)
                     \<and> total_r ?r = total_r w \<and> hasMore ?r = hasMore w"
    by blast
  with sorted_by_score_desc show ?thesis
    by auto
qed

lemma insert_by_nullable_Some:
  "insert_by (compareNullable fld ord) x (y # ys) = Inr zs \<Longrightarrow> x \<noteq> None \<and> y \<noteq> None"
  by (auto simp: compareNullable_def split: sum.splits option.splits)

lemma array_sort_nullable_Some:
  "array_sort (compareNullable fld ord) xs = Inr ys \<Longrightarrow> 2 \<le> length xs \<Longrightarrow> None \<notin> set xs"
proof (induction xs arbitrary: ys)
  case Nil
  then show ?case by simp
next
  case (Cons x xs)
  from Cons.prems(1) obtain ys' where
    y: "array_sort (compareNullable fld ord) xs = Inr ys'"
    and i: "insert_by (compareNullable fld ord) x ys' = Inr ys"
    by (auto split: sum.splits)
  from Cons.prems(2) obtain z zs where xs: "xs = z # zs"
    by (cases xs) auto
  from y have "length ys' = length xs"
    using array_sort_mset mset_eq_length by blast
  with xs obtain v vs where v: "ys' = v # vs"
    by (cases ys') auto
  from i [unfolded v] have "x \<noteq> None \<and> v \<noteq> None"
    by (rule insert_by_nullable_Some)
  then have x: "x \<noteq> None" and vn: "v \<noteq> None"
    by simp_all
  show ?case
  proof (cases zs)
    case Nil
    with y xs v have "v = z" by simp
    with vn x xs Nil show ?thesis by auto
  next
    case (Cons a as)
    with xs have "2 \<le> length xs" by simp
    with y have "None \<notin> set xs" by (rule Cons.IH)
    with x show ?thesis by auto
  qed
qed

lemma array_sort_nullable_throws:
  assumes "None \<in> set xs" and "2 \<le> length xs"
  shows "array_sort (compareNullable fld ord) xs = Inl TypeError"
proof (cases "array_sort (compareNullable fld ord) xs")
  case (Inl e)
  then show ?thesis by (cases e) simp
next
  case (Inr ys)
  with assms array_sort_nullable_Some show ?thesis by blast
qed

text \<open>
  Claim C5 says that every no-search query with \<open>sortField \<noteq> id\<close> returns its window,
  reordered by the sort field. The code does not: the window is sorted before its
  \<open>null\<close> placeholders are filtered out. When only the first batch (the ids \<open>1..1000\<close>) has
  been written, the window \<open>[990, 1020)\<close> holds ten stored records and twenty placeholders;
  sorted by score, the comparator reads a property of \<open>null\<close> and no page is returned,
  while the same window by id returns the ten stored records.
\<close>

theorem sorted_window_throws:
  "getCustomers 0 (generateCustomers 0 1000)
     \<lparr> offset = 990, limit = 30, search = [], sortBy = SortScore, sortOrder = Asc \<rparr>
     = Inl TypeError
   \<and> getCustomers 0 (generateCustomers 0 1000)
     \<lparr> offset = 990, limit = 30, search = [], sortBy = SortId, sortOrder = Asc \<rparr>
     = Inr \<lparr> data = drop 990 (generateCustomers 0 1000), total_r = 1000000, hasMore = True \<rparr>"
proof
  let ?q = "\<lparr> offset = 990, limit = 30, search = [], sortBy = SortScore, sortOrder = Asc \<rparr>"
  let ?st = "generateCustomers 0 1000"
  have v: "VIRTUAL_TOTAL = 1000000" "ACTUAL_STORED = 10000"
    by (simp_all add: VIRTUAL_TOTAL_def ACTUAL_STORED_def)
  have w: "window 0 ?st ?q
             = map Some (drop 990 ?st) @ map (placeholder 0) [1000..<1020]"
    by (simp add: window_eq v length_generateCustomers)
  have "placeholder 0 1000 = None"
    by (simp add: placeholder_def v)
  moreover have "(1000::nat) \<in> set [1000..<1020]"
    by simp
  ultimately have "None \<in> placeholder 0 ` set [1000..<1020]"
    by (metis imageI)
  then have n: "None \<in> set (window 0 ?st ?q)"
    unfolding w by simp
  have l: "2 \<le> length (window 0 ?st ?q)"
    unfolding w by simp
  have "array_sort (compareNullable SortScore Asc) (window 0 ?st ?q) = Inl TypeError"
    using n l by (rule array_sort_nullable_throws)
  then show "getCustomers 0 ?st ?q = Inl TypeError"
    by (simp add: getCustomers_no_search)
next
  show "getCustomers 0 (generateCustomers 0 1000)
     \<lparr> offset = 990, limit = 30, search = [], sortBy = SortId, sortOrder = Asc \<rparr>
     = Inr \<lparr> data = drop 990 (generateCustomers 0 1000), total_r = 1000000, hasMore = True \<rparr>"
    by (simp add: no_search_by_id_page length_generateCustomers VIRTUAL_TOTAL_def
        ACTUAL_STORED_def)
qed

section \<open>Navigation\<close>

lemma scrollFraction_range:
  "scrollFraction y height = Some p \<Longrightarrow> 0 \<le> p \<and> p \<le> 1"
  by (auto simp: scrollFraction_def split: if_splits)

text \<open>
  Claim C3, as stated, fails for the jump-to-row entry point: with a million rows, a jump to
  the last row yields the offset 999999, beyond \<open>total - pageSize = 999970\<close>.
\<close>

theorem jump_exceeds_last_page:
  "handleJumpToRow_target 1000000 (Some 1000000) = Some 999999
   \<and> \<not> (999999 \<le> 1000000 - ITEMS_PER_PAGE)"
  by (simp add: handleJumpToRow_target_def ITEMS_PER_PAGE_def)

text \<open>
  Claim C3, amended. When \<open>total \<ge> pageSize\<close>: the scrollbar and the mouse wheel always
  yield a target offset in \<open>[0, total - pageSize]\<close>; so does a key press, provided the
  current offset \<open>currentRow - 1\<close> lies in that range; a jump to a row in \<open>[1, total]\<close>
  yields \<open>row - 1\<close>, which lies in \<open>[0, total - 1]\<close> and stays within
  \<open>total - pageSize\<close> exactly for the rows up to \<open>total - pageSize + 1\<close>.
\<close>

theorem navigation_targets:
  assumes "ITEMS_PER_PAGE \<le> totalN"
  shows "(\<forall>off. updateScrollPosition_target totalN mounted y height = Some off
            \<longrightarrow> 0 \<le> off \<and> off \<le> totalN - ITEMS_PER_PAGE)
       \<and> 0 \<le> handleWheel_target totalN row deltaY
       \<and> handleWheel_target totalN row deltaY \<le> totalN - ITEMS_PER_PAGE
       \<and> (\<forall>off. 0 \<le> row - 1 \<and> row - 1 \<le> totalN - ITEMS_PER_PAGE
                 \<and> handleKeyDown_target totalN row inInput k = Some off
            \<longrightarrow> 0 \<le> off \<and> off \<le> totalN - ITEMS_PER_PAGE)
       \<and> (\<forall>r. 1 \<le> r \<and> r \<le> totalN
            \<longrightarrow> handleJumpToRow_target totalN (Some r) = Some (r - 1)
                \<and> 0 \<le> r - 1 \<and> r - 1 \<le> totalN - 1
                \<and> (r - 1 \<le> totalN - ITEMS_PER_PAGE \<longleftrightarrow> r \<le> totalN - ITEMS_PER_PAGE + 1))"
proof (intro conjI allI impI)
  fix off
  assume "updateScrollPosition_target totalN mounted y height = Some off"
  then show "0 \<le> off" "off \<le> totalN - ITEMS_PER_PAGE"
    using assms
    by (auto simp: updateScrollPosition_target_def Let_def split: option.splits if_splits)
next
  show "0 \<le> handleWheel_target totalN row deltaY"
    "handleWheel_target totalN row deltaY \<le> totalN - ITEMS_PER_PAGE"
    using assms by (auto simp: handleWheel_target_def Let_def)
next
  fix off
  assume "0 \<le> row - 1 \<and> row - 1 \<le> totalN - ITEMS_PER_PAGE
            \<and> handleKeyDown_target totalN row inInput k = Some off"
  then show "0 \<le> off" "off \<le> totalN - ITEMS_PER_PAGE"
    using assms
    by (cases k; auto simp: handleKeyDown_target_def Let_def ITEMS_PER_PAGE_def split: if_splits)+
next
  fix r
  assume "1 \<le> r \<and> r \<le> totalN"
  then show "handleJumpToRow_target totalN (Some r) = Some (r - 1)"
    "0 \<le> r - 1" "r - 1 \<le> totalN - 1"
    "(r - 1 \<le> totalN - ITEMS_PER_PAGE) = (r \<le> totalN - ITEMS_PER_PAGE + 1)"
    by (auto simp: handleJumpToRow_target_def)
qed

theorem navigation_targets_witness:
  "ITEMS_PER_PAGE \<le> 1000000
   \<and> updateScrollPosition_target 1000000 True 100 100 = Some 999970
   \<and> handleWheel_target 1000000 999971 1 = 999970
   \<and> handleKeyDown_target 1000000 999971 False ArrowDown = Some 999970
   \<and> handleJumpToRow_target 1000000 (Some 1000000) = Some 999999"
proof -
  have h: "ITEMS_PER_PAGE \<le> 1000000" by (simp add: ITEMS_PER_PAGE_def)
  have s: "updateScrollPosition_target 1000000 True 100 100 = Some 999970"
    by (simp add: updateScrollPosition_target_def scrollFraction_def ITEMS_PER_PAGE_def)
  have k: "handleKeyDown_target 1000000 999971 False ArrowDown = Some 999970"
    by (simp add: handleKeyDown_target_def ITEMS_PER_PAGE_def)
  have w: "handleWheel_target 1000000 999971 1 = 999970"
    by (simp add: handleWheel_target_def ITEMS_PER_PAGE_def)
  from navigation_targets [OF h, of True 100 100 999971 1 False ArrowDown]
  have "handleJumpToRow_target 1000000 (Some 1000000) = Some (1000000 - 1)"
    by simp
  with h s k w show ?thesis by simp
qed

text \<open>
  Claim C7. A row number in \<open>[1, total]\<close> is mapped to the offset \<open>row - 1\<close>, which is
  then loaded. A row number below 1 or above \<open>total\<close> is rejected by the guard: no offset
  is requested and the component state (page, total, current row, scroll position) is
  returned as it was.
\<close>

theorem jump_to_row:
  "(1 \<le> r \<and> r \<le> totalCount s \<longrightarrow>
      handleJumpToRow_target (totalCount s) (Some r) = Some (r - 1)
      \<and> handleJumpToRow now store s (Some r)
          = loadCustomersAtOffset now store
              (s\<lparr> scrollPercentage := js_div (r - 1) (totalCount s) \<rparr>) (r - 1))
   \<and> (r < 1 \<or> r > totalCount s \<longrightarrow>
      handleJumpToRow_target (totalCount s) (Some r) = None
      \<and> handleJumpToRow now store s (Some r) = s)"
  by (auto simp: handleJumpToRow_def handleJumpToRow_target_def)

theorem jump_to_row_witness:
  "handleJumpToRow_target 1000000 (Some 1) = Some 0
   \<and> handleJumpToRow_target 1000000 (Some 1000001) = None
   \<and> handleJumpToRow 0 []
        \<lparr> customers = [], loading = False, searchTerm = [], navSortBy = SortId,
          navSortOrder = Asc, totalCount = 1000000, currentRow = 1,
          scrollPercentage = Finite 0 \<rparr> (Some 1000001)
      = \<lparr> customers = [], loading = False, searchTerm = [], navSortBy = SortId,
          navSortOrder = Asc, totalCount = 1000000, currentRow = 1,
          scrollPercentage = Finite 0 \<rparr>"
proof -
  let ?s = "\<lparr> customers = [], loading = False, searchTerm = [], navSortBy = SortId,
          navSortOrder = Asc, totalCount = 1000000, currentRow = 1,
          scrollPercentage = Finite 0 \<rparr>"
  from jump_to_row [of 1 ?s 0 "[]"] jump_to_row [of 1000001 ?s 0 "[]"]
  show ?thesis by simp
qed

end
